theory Spec2Isabelle
  imports Main "HOL-Library.Word" "HOL-Library.Multiset" "HOL-Library.AList"
begin

text \<open>
  Two providers of dnscontrol: the conversion of the Gandi provider between
  \<open>models.RecordConfig\<close> and the RRsets of the LiveDNS API
  (\<open>providers/gandiv5/convert.go\<close>), and the Hetzner provider with its API client
  (\<open>providers/hetzner/api.go\<close>). The definitions follow the Go source; what the source
  calls in packages that are not under src/ is modelled from the spec or taken as a
  parameter, and says so.
\<close>

section \<open>Data model\<close>

text \<open>
  Go's fixed-width integers are words. \<open>int\<close> is the 64-bit \<open>int\<close> of the platforms
  dnscontrol is built for; a conversion between integer types is \<open>ucast\<close> (it keeps
  the low bits, as Go's conversions do).
\<close>

type_synonym uint32 = "32 word"
type_synonym uint64 = "64 word"
type_synonym go_int = "64 word"

text \<open>
  \<open>livedns.DomainRecord\<close> (package go-gandi), with the fields that
  \<open>providers/gandiv5/convert.go\<close> reads and writes.
\<close>

record DomainRecord =
  RrsetType :: string
  RrsetTTL :: go_int
  RrsetName :: string
  RrsetValues :: "string list"

text \<open>
  \<open>hetzner.Record\<close> and \<open>hetzner.Zone\<close> of \<open>providers/hetzner/api.go\<close>, with the
  fields the provider uses. Field names carry a prefix, since \<open>Type\<close>, \<open>Name\<close> and
  \<open>TTL\<close> occur in several structs.
\<close>

record Record =
  recType :: string
  recId :: string
  recZoneId :: string
  recName :: string
  recValue :: string
  recTTL :: uint64

record Zone =
  zoneId :: string
  zoneName :: string
  zoneNS :: "string list"
  zoneTTL :: uint64

text \<open>
  \<open>models.RecordConfig\<close>. \<open>Original\<close> is an \<open>interface{}\<close> in Go: nil, or the native
  record the provider stored in it.
\<close>

datatype original = NoOriginal | GandiOriginal DomainRecord | HetznerOriginal Record

record RecordConfig =
  rcType :: string
  rcName :: string
  rcTTL :: uint32
  rcTarget :: string
  rcOriginal :: original

type_synonym RecordKey = "string \<times> string"

type_synonym error = string

section \<open>Helpers of package models\<close>

text \<open>
  Modelled from the spec: \<open>RecordConfig.GetLabel\<close> is not under src/. The spec's
  canonical record has a \<open>label\<close>, relative to the zone origin; \<open>GetLabel\<close> reads it.
\<close>

definition GetLabel :: "RecordConfig \<Rightarrow> string" where
  "GetLabel r = rcName r"

text \<open>
  Modelled from the spec: \<open>RecordConfig.Key\<close> is not under src/. The spec derives the
  key of a record from its label and type, and the encoder groups by label and type.
\<close>

definition Key :: "RecordConfig \<Rightarrow> RecordKey" where
  "Key r = (rcName r, rcType r)"

text \<open>
  Modelled from the spec: \<open>RecordConfig.SetLabel\<close> is not under src/. The spec
  normalises the label relative to the origin: the apex marker \<open>@\<close> and the literal
  origin string are treated identically, every other name is the label itself.
\<close>

definition SetLabel :: "RecordConfig \<Rightarrow> string \<Rightarrow> string \<Rightarrow> RecordConfig" where
  "SetLabel rc short origin =
     rc\<lparr>rcName := (if short = ''@'' \<or> short = origin then ''@'' else short)\<rparr>"

text \<open>
  Modelled from the spec: \<open>RecordConfig.SetTarget\<close> is not under src/. The spec decodes
  an ALIAS with the raw value as target and no further parsing.
\<close>

definition SetTarget :: "RecordConfig \<Rightarrow> string \<Rightarrow> error + RecordConfig" where
  "SetTarget rc s = Inr (rc\<lparr>rcTarget := s\<rparr>)"

text \<open>
  Modelled from the spec: the errors of the value parsers are not under src/. The
  spec's \<open>MalformedRecord\<close> names the offending label, type and value; the spec
  fixes no wording, and this message holds the three.
\<close>

definition MalformedRecord :: "string \<Rightarrow> string \<Rightarrow> string \<Rightarrow> error" where
  "MalformedRecord label rtype contents =
     ''malformed record: label='' @ label @ '' type='' @ rtype @ '' value='' @ contents"

text \<open>
  Modelled from the spec: \<open>RecordConfig.PopulateFromStringFunc\<close> is not under src/. The
  spec dispatches on the type tag to the type-specific value parser and fails with
  \<open>MalformedRecord\<close> when the value cannot be parsed against its declared type. The
  value grammar itself (with \<open>txtutil.ParseQuoted\<close> for TXT) is the parameter
  \<open>parse\<close>, from type, value and origin to the parsed target.
\<close>

type_synonym parser = "string \<Rightarrow> string \<Rightarrow> string \<Rightarrow> string option"

definition PopulateFromStringFunc ::
  "parser \<Rightarrow> RecordConfig \<Rightarrow> string \<Rightarrow> string \<Rightarrow> string \<Rightarrow> error + RecordConfig" where
  "PopulateFromStringFunc parse rc rtype contents origin =
     (case parse rtype contents origin of
        None \<Rightarrow> Inl (MalformedRecord (rcName rc) rtype contents)
      | Some t \<Rightarrow> Inr (rc\<lparr>rcType := rtype, rcTarget := t\<rparr>))"

section \<open>Gandi: native to canonical (convert.go, nativeToRecords)\<close>

text \<open>
  The loop over \<open>n.RrsetValues\<close>, with the slice \<open>rcs\<close> built so far:
  \<open>newRecordConfig\<close> is the struct literal the body starts from, with the other fields
  at their zero values, and \<open>decodeValue\<close> is the body for one value up to the test of
  \<open>err\<close>. An error of the value parser leaves the loop with
  \<open>fmt.Errorf("unparsable record received from gandi: %w", err)\<close>, whose message is
  the prefix followed by the message of \<open>err\<close>, and with no records.
\<close>

definition newRecordConfig :: "DomainRecord \<Rightarrow> RecordConfig" where
  "newRecordConfig n =
     \<lparr>rcType = [], rcName = [], rcTTL = ucast (RrsetTTL n), rcTarget = [],
      rcOriginal = GandiOriginal n\<rparr>"

definition decodeValue ::
  "parser \<Rightarrow> DomainRecord \<Rightarrow> string \<Rightarrow> string \<Rightarrow> error + RecordConfig" where
  "decodeValue parse n origin v =
     (let rc = SetLabel (newRecordConfig n) (RrsetName n) origin
      in if RrsetType n = ''ALIAS''
         then SetTarget (rc\<lparr>rcType := ''ALIAS''\<rparr>) v
         else PopulateFromStringFunc parse rc (RrsetType n) v origin)"

fun nativeToRecords_loop ::
  "parser \<Rightarrow> DomainRecord \<Rightarrow> string \<Rightarrow> string list \<Rightarrow> RecordConfig list
     \<Rightarrow> error + RecordConfig list" where
  "nativeToRecords_loop parse n origin [] rcs = Inr rcs"
| "nativeToRecords_loop parse n origin (v # vs) rcs =
     (case decodeValue parse n origin v of
        Inl err \<Rightarrow> Inl (''unparsable record received from gandi: '' @ err)
      | Inr rc \<Rightarrow> nativeToRecords_loop parse n origin vs (rcs @ [rc]))"

definition nativeToRecords ::
  "parser \<Rightarrow> DomainRecord \<Rightarrow> string \<Rightarrow> error + RecordConfig list" where
  "nativeToRecords parse n origin =
     nativeToRecords_loop parse n origin (RrsetValues n) []"

section \<open>Gandi: canonical to native (convert.go, recordsToNative)\<close>

text \<open>
  The Go map \<open>keys\<close> from record key to \<open>*livedns.DomainRecord\<close> is an association
  list with one entry per key, in the order the keys were inserted: a lookup is
  \<open>map_of\<close>, a new key goes to the end, and a write through the stored pointer
  replaces the entry where it stands. \<open>GetTargetCombinedFunc(txtutil.EncodeQuoted)\<close>
  is not under src/: it is the parameter \<open>combine\<close>. The call of \<open>printer.Warnf\<close>
  only prints and is left out. \<open>newZoneRecord\<close> is the branch of the loop for a key
  that is not in the map yet, \<open>addToZoneRecord\<close> the branch for a key that is.
\<close>

type_synonym encoder = "RecordConfig \<Rightarrow> string"

definition newZoneRecord :: "encoder \<Rightarrow> string \<Rightarrow> RecordConfig \<Rightarrow> DomainRecord" where
  "newZoneRecord combine origin r =
     (let label = GetLabel r;
          label = (if label = ''@'' then origin else label)
      in \<lparr>RrsetType = rcType r, RrsetTTL = ucast (rcTTL r), RrsetName = label,
          RrsetValues = [combine r]\<rparr>)"

definition addToZoneRecord :: "encoder \<Rightarrow> RecordConfig \<Rightarrow> DomainRecord \<Rightarrow> DomainRecord" where
  "addToZoneRecord combine r zr =
     (let zr = zr\<lparr>RrsetValues := RrsetValues zr @ [combine r]\<rparr>
      in if rcTTL r \<noteq> ucast (RrsetTTL zr)
         then (if rcTTL r < ucast (RrsetTTL zr) then zr\<lparr>RrsetTTL := ucast (rcTTL r)\<rparr> else zr)
         else zr)"

fun recordsToNative_loop ::
  "encoder \<Rightarrow> string \<Rightarrow> RecordConfig list \<Rightarrow> (RecordKey \<times> DomainRecord) list
     \<Rightarrow> (RecordKey \<times> DomainRecord) list" where
  "recordsToNative_loop combine origin [] keys = keys"
| "recordsToNative_loop combine origin (r # rcs) keys =
     (let key = Key r
      in case map_of keys key of
           None \<Rightarrow>
             recordsToNative_loop combine origin rcs
               (keys @ [(key, newZoneRecord combine origin r)])
         | Some zr \<Rightarrow>
             recordsToNative_loop combine origin rcs
               (AList.update key (addToZoneRecord combine r zr) keys))"

text \<open>
  The last loop ranges over the Go map. Go leaves the order of a map iteration
  unspecified and varies it from run to run: \<open>order\<close> is the order the runtime picks,
  which visits every entry once.
\<close>

type_synonym map_order =
  "(RecordKey \<times> DomainRecord) list \<Rightarrow> (RecordKey \<times> DomainRecord) list"

definition map_iteration :: "map_order \<Rightarrow> bool" where
  "map_iteration order = (\<forall>m. mset (order m) = mset m)"

definition recordsToNative ::
  "encoder \<Rightarrow> map_order \<Rightarrow> RecordConfig list \<Rightarrow> string \<Rightarrow> DomainRecord list" where
  "recordsToNative combine order rcs origin =
     map snd (order (recordsToNative_loop combine origin rcs []))"

section \<open>Hetzner: slices and the JSON decoder (api.go)\<close>

text \<open>
  \<open>GetZones\<close> and \<open>GetRecords\<close> copy the response struct (\<open>extraResponse :=
  response\<close>) and decode the next page into the copy. The copy shares the backing
  array of the slice, so the store is explicit: a heap of backing arrays, and a slice
  header with the address of its array and its length. The capacity of a slice is the
  size of its array. Address 0 holds the array of size 0, for nil and empty slices.
\<close>

record slice =
  ptr :: nat
  len :: nat

type_synonym 'a heap = "'a list list"

definition emptyHeap :: "'a heap" where
  "emptyHeap = [[]]"

definition nilSlice :: slice where
  "nilSlice = \<lparr>ptr = 0, len = 0\<rparr>"

definition cap :: "'a heap \<Rightarrow> slice \<Rightarrow> nat" where
  "cap h s = length (h ! ptr s)"

definition elems :: "'a heap \<Rightarrow> slice \<Rightarrow> 'a list" where
  "elems h s = take (len s) (h ! ptr s)"

text \<open>
  A new array of capacity \<open>c\<close> that starts with \<open>xs\<close>; the rest holds zero values.
  How far Go grows a full array depends on its version: \<open>grow\<close> maps the old capacity
  to the one asked for, and the new array always has room for the element to be
  written.
\<close>

definition alloc :: "'a \<Rightarrow> 'a heap \<Rightarrow> 'a list \<Rightarrow> nat \<Rightarrow> 'a heap \<times> nat" where
  "alloc zero h xs c = (h @ [xs @ replicate (c - length xs) zero], length h)"

definition set_elem :: "'a heap \<Rightarrow> slice \<Rightarrow> nat \<Rightarrow> 'a \<Rightarrow> 'a heap" where
  "set_elem h s i x = h[ptr s := (h ! ptr s)[i := x]]"

text \<open>Go's \<open>append(s, x)\<close>: in place when the array has room, else into a new array.\<close>

definition go_append ::
  "(nat \<Rightarrow> nat) \<Rightarrow> 'a \<Rightarrow> 'a heap \<Rightarrow> slice \<Rightarrow> 'a \<Rightarrow> 'a heap \<times> slice" where
  "go_append grow zero h s x =
     (if len s < cap h s
      then (set_elem h s (len s) x, s\<lparr>len := Suc (len s)\<rparr>)
      else (let (h', p) = alloc zero h (elems h s @ [x]) (max (Suc (len s)) (grow (cap h s)))
            in (h', \<lparr>ptr = p, len = Suc (len s)\<rparr>)))"

fun append_all ::
  "(nat \<Rightarrow> nat) \<Rightarrow> 'a \<Rightarrow> 'a heap \<Rightarrow> slice \<Rightarrow> 'a list \<Rightarrow> 'a heap \<times> slice" where
  "append_all grow zero h s [] = (h, s)"
| "append_all grow zero h s (x # xs) =
     (let (h', s') = go_append grow zero h s x in append_all grow zero h' s' xs)"

text \<open>
  \<open>json.Unmarshal\<close> of a JSON array into a slice field (package encoding/json, function
  \<open>array\<close>): element \<open>i\<close> of the JSON array is decoded into element \<open>i\<close> of the
  slice, in the array the slice already has while its capacity lasts, and in a grown
  copy from then on; the length is set to the number of elements at the end, and an
  empty JSON array gives a new empty slice. The JSON objects of a reply carry every
  field of the struct, so decoding one into an element replaces the element.
\<close>

fun decode_array ::
  "(nat \<Rightarrow> nat) \<Rightarrow> 'a \<Rightarrow> 'a heap \<Rightarrow> slice \<Rightarrow> nat \<Rightarrow> 'a list \<Rightarrow> 'a heap \<times> slice" where
  "decode_array grow zero h s i [] = (h, if i < len s then s\<lparr>len := i\<rparr> else s)"
| "decode_array grow zero h s i (x # xs) =
     (let (h1, s1) =
            (if cap h s \<le> i
             then (let (h', p) = alloc zero h (elems h s) (max (Suc i) (grow (cap h s)))
                   in (h', s\<lparr>ptr := p\<rparr>))
             else (h, s));
          s2 = (if len s1 \<le> i then s1\<lparr>len := Suc i\<rparr> else s1)
      in decode_array grow zero (set_elem h1 s2 i x) s2 (Suc i) xs)"

definition unmarshal_slice ::
  "(nat \<Rightarrow> nat) \<Rightarrow> 'a \<Rightarrow> 'a heap \<Rightarrow> slice \<Rightarrow> 'a list \<Rightarrow> 'a heap \<times> slice" where
  "unmarshal_slice grow zero h s js =
     (if js = [] then (h, nilSlice) else decode_array grow zero h s 0 js)"

text \<open>
  A heap extends another when it has the arrays of the other, each of the size it had:
  writing an element and allocating an array keep the sizes of the arrays there are.
\<close>

definition heap_ext :: "'a heap \<Rightarrow> 'a heap \<Rightarrow> bool" where
  "heap_ext h h' = (length h \<le> length h' \<and> (\<forall>p < length h. length (h' ! p) = length (h ! p)))"

section \<open>Hetzner: the API client (api.go)\<close>

record Pagination =
  Page :: uint64
  LastPage :: uint64

record Meta =
  Pagination :: Pagination

text \<open>
  The source holds the client twice (\<open>APIClient\<close> and \<open>HdnsApiClient\<close>), with the
  same \<open>request\<close>, \<open>GetZones\<close> and \<open>GetRecords\<close>; the provider uses the second.

  What the server answers to one \<open>GET\<close> of a listing. \<open>Failure\<close> is \<open>request\<close>
  returning an error before it decodes anything (the transport fails, the status is
  not 200, the body cannot be read): the output is as it was before the call and no
  meta is returned. \<open>Success\<close> carries the JSON array of the body and its
  pagination, \<open>None\<close> when the meta part of the body does not decode. A body that
  is not the JSON of the output struct is not modelled.
\<close>

datatype 'a reply = Failure error | Success "'a list" "Meta option"

text \<open>
  A listing endpoint: the answer to the filter (\<open>name\<close> or \<open>zone_id\<close>) and to the
  \<open>page\<close> parameter, which is absent in the first request and \<open>Page + 1\<close> of
  the last meta from then on. The \<open>per_page\<close> that \<open>GetZones\<close> always sends is part
  of the endpoint.
\<close>

type_synonym 'a listing = "string \<Rightarrow> uint64 option \<Rightarrow> 'a reply"

definition request ::
  "(nat \<Rightarrow> nat) \<Rightarrow> 'a \<Rightarrow> 'a heap \<Rightarrow> slice \<Rightarrow> 'a reply
     \<Rightarrow> 'a heap \<times> slice \<times> Meta option \<times> error option" where
  "request grow zero h output reply =
     (case reply of
        Failure err \<Rightarrow> (h, output, None, Some err)
      | Success js meta \<Rightarrow>
          (let (h', output') = unmarshal_slice grow zero h output js
           in (h', output', meta, None)))"

text \<open>
  The loop of \<open>GetZones\<close> and of \<open>GetRecords\<close>, which are the same text up to the
  names: while the last reply has a meta and its page is below the last page, ask for
  the next page into a copy of \<open>response\<close>, return on an error, and append the
  elements of the copy to the copy. \<open>response\<close> itself is never assigned in the loop.
  The loop ends when the server says so; the fuel bounds the number of requests, and
  \<open>None\<close> is a loop that has not ended within it.
\<close>

fun pages_loop ::
  "nat \<Rightarrow> (nat \<Rightarrow> nat) \<Rightarrow> 'a \<Rightarrow> (uint64 option \<Rightarrow> 'a reply) \<Rightarrow> 'a heap \<Rightarrow> slice
     \<Rightarrow> Meta option \<Rightarrow> error option \<Rightarrow> ('a list \<times> error option) option" where
  "pages_loop 0 grow zero get h response meta err = None"
| "pages_loop (Suc fuel) grow zero get h response meta err =
     (case meta of
        None \<Rightarrow> Some (elems h response, err)
      | Some m \<Rightarrow>
          if Page (Pagination m) < LastPage (Pagination m)
          then (let extraResponse = response;
                    (h1, extraResponse, meta', err') =
                       request grow zero h extraResponse (get (Some (Page (Pagination m) + 1)))
                in case err' of
                     Some e \<Rightarrow> Some ([], Some e)
                   | None \<Rightarrow>
                       (let (h2, extraResponse) =
                              append_all grow zero h1 extraResponse (elems h1 extraResponse)
                        in pages_loop fuel grow zero get h2 response meta' err'))
          else Some (elems h response, err))"

definition get_pages ::
  "nat \<Rightarrow> (nat \<Rightarrow> nat) \<Rightarrow> 'a \<Rightarrow> (uint64 option \<Rightarrow> 'a reply)
     \<Rightarrow> ('a list \<times> error option) option" where
  "get_pages fuel grow zero get =
     (let (h, response, meta, err) = request grow zero emptyHeap nilSlice (get None)
      in pages_loop fuel grow zero get h response meta err)"

definition zeroZone :: Zone where
  "zeroZone = \<lparr>zoneId = [], zoneName = [], zoneNS = [], zoneTTL = 0\<rparr>"

definition zeroRecord :: Record where
  "zeroRecord = \<lparr>recType = [], recId = [], recZoneId = [], recName = [], recValue = [],
     recTTL = 0\<rparr>"

definition GetZones ::
  "nat \<Rightarrow> (nat \<Rightarrow> nat) \<Rightarrow> Zone listing \<Rightarrow> string \<Rightarrow> (Zone list \<times> error option) option" where
  "GetZones fuel grow zones name = get_pages fuel grow zeroZone (zones name)"

definition GetRecords ::
  "nat \<Rightarrow> (nat \<Rightarrow> nat) \<Rightarrow> Record listing \<Rightarrow> string
     \<Rightarrow> (Record list \<times> error option) option" where
  "GetRecords fuel grow records zoneID = get_pages fuel grow zeroRecord (records zoneID)"

section \<open>Hetzner: the provider (api.go, HdnsProvider)\<close>

text \<open>
  A call of the provider returns a value, returns an error, or panics; around that,
  \<open>None\<close> is a call whose pagination loop has not ended within the fuel.
\<close>

datatype panic = IndexOutOfRange | NilDereference | TypeAssertion

datatype 'a result = Ok 'a | Err error | Panic panic

text \<open>
  \<open>models.DomainConfig\<close> with the fields the provider reads, a \<open>diff.Correlation\<close>
  (a nil pointer is \<open>None\<close>), and a \<open>models.Correction\<close>, whose closure \<open>F\<close> is the
  client call it makes with the record it captured.
\<close>

record DomainConfig =
  dcName :: string
  dcRecords :: "RecordConfig list"

record Correlation =
  Existing :: "RecordConfig option"
  Desired :: "RecordConfig option"

datatype action = DeleteRecord Record | CreateRecord Record | UpdateRecord Record

record Correction =
  Msg :: string
  F :: action

type_synonym diff_result =
  "Correlation list \<times> Correlation list \<times> Correlation list \<times> Correlation list"

text \<open>
  What the provider is given and what it calls outside of src/: the two listing
  endpoints of the server, the growth of a full array, the value grammar of
  \<open>PopulateFromString\<close>, and the functions of packages models and diff
  (\<open>DomainConfig.Punycode\<close>, \<open>PostProcessRecords\<close>, \<open>IncrementalDiff\<close> of the differ
  made for the domain, \<open>Correlation.String\<close>, \<open>RecordConfig.GetTargetCombined\<close>,
  \<open>ToNameservers\<close>).
\<close>

record env =
  zonesAPI :: "Zone listing"
  recordsAPI :: "Record listing"
  grow :: "nat \<Rightarrow> nat"
  parseValue :: parser
  Punycode :: "DomainConfig \<Rightarrow> error + DomainConfig"
  PostProcessRecords :: "RecordConfig list \<Rightarrow> RecordConfig list"
  IncrementalDiff :: "DomainConfig \<Rightarrow> RecordConfig list \<Rightarrow> error + diff_result"
  CorrelationString :: "Correlation \<Rightarrow> string"
  GetTargetCombined :: "RecordConfig \<Rightarrow> string"
  ToNameservers :: "string list \<Rightarrow> error + string list"

text \<open>
  Modelled from the spec: \<open>RecordConfig.PopulateFromString\<close> is not under src/. It is
  \<open>PopulateFromStringFunc\<close> without the function for TXT.
\<close>

definition PopulateFromString ::
  "parser \<Rightarrow> RecordConfig \<Rightarrow> string \<Rightarrow> string \<Rightarrow> string \<Rightarrow> error + RecordConfig" where
  "PopulateFromString parse rc rtype contents origin =
     PopulateFromStringFunc parse rc rtype contents origin"

definition GetNameservers :: "env \<Rightarrow> nat \<Rightarrow> string \<Rightarrow> string list result option" where
  "GetNameservers e fuel domain =
     (case GetZones fuel (grow e) (zonesAPI e) domain of
        None \<Rightarrow> None
      | Some (zones, Some err) \<Rightarrow> Some (Err err)
      | Some (zones, None) \<Rightarrow>
          (case zones of
             [] \<Rightarrow> Some (Panic IndexOutOfRange)
           | zone # _ \<Rightarrow>
               (case ToNameservers e (zoneNS zone) of
                  Inl err \<Rightarrow> Some (Err err)
                | Inr nameservers \<Rightarrow> Some (Ok nameservers))))"

text \<open>
  The loop of \<open>GetZoneRecords\<close> over the records of the zone; \<open>toRecordConfig\<close> is its
  body for one record, up to the test of \<open>err\<close>.
\<close>

definition toRecordConfig :: "env \<Rightarrow> string \<Rightarrow> Zone \<Rightarrow> Record \<Rightarrow> error + RecordConfig" where
  "toRecordConfig e domain zone record =
     (let rc = \<lparr>rcType = recType record, rcName = recName record,
                rcTTL = ucast (recTTL record), rcTarget = [],
                rcOriginal = HetznerOriginal record\<rparr>;
          rc = SetLabel rc (recName record) domain
      in PopulateFromString (parseValue e) rc (recType record) (recValue record) (zoneName zone))"

fun GetZoneRecords_loop ::
  "env \<Rightarrow> string \<Rightarrow> Zone \<Rightarrow> Record list \<Rightarrow> RecordConfig list \<Rightarrow> RecordConfig list result" where
  "GetZoneRecords_loop e domain zone [] rcs = Ok rcs"
| "GetZoneRecords_loop e domain zone (record # records) rcs =
     (case toRecordConfig e domain zone record of
        Inl err \<Rightarrow> Err err
      | Inr rc \<Rightarrow> GetZoneRecords_loop e domain zone records (rcs @ [rc]))"

definition GetZoneRecords :: "env \<Rightarrow> nat \<Rightarrow> string \<Rightarrow> RecordConfig list result option" where
  "GetZoneRecords e fuel domain =
     (case GetZones fuel (grow e) (zonesAPI e) domain of
        None \<Rightarrow> None
      | Some (zones, Some err) \<Rightarrow> Some (Err err)
      | Some (zones, None) \<Rightarrow>
          (case zones of
             [] \<Rightarrow> Some (Panic IndexOutOfRange)
           | zone # _ \<Rightarrow>
               (case GetRecords fuel (grow e) (recordsAPI e) (zoneId zone) of
                  None \<Rightarrow> None
                | Some (records, Some err) \<Rightarrow> Some (Err err)
                | Some (records, None) \<Rightarrow>
                    Some (GetZoneRecords_loop e domain zone records []))))"

text \<open>
  The three loops of \<open>GetDomainCorrections\<close> over the result of the differ, in the
  order of the source: deletions, creations, modifications. Reading a field of a nil
  \<open>Existing\<close> or \<open>Desired\<close> panics, and so does the type assertion
  \<open>Original.(Record)\<close> on anything but a Hetzner record (\<open>originalRecord\<close>).
\<close>

definition originalRecord :: "RecordConfig option \<Rightarrow> Record result" where
  "originalRecord rc =
     (case rc of
        None \<Rightarrow> Panic NilDereference
      | Some r \<Rightarrow>
          (case rcOriginal r of
             HetznerOriginal record \<Rightarrow> Ok record
           | _ \<Rightarrow> Panic TypeAssertion))"

definition planDelete :: "env \<Rightarrow> Correlation \<Rightarrow> Correction result" where
  "planDelete e del =
     (case originalRecord (Existing del) of
        Ok record \<Rightarrow> Ok \<lparr>Msg = CorrelationString e del, F = DeleteRecord record\<rparr>
      | Err err \<Rightarrow> Err err
      | Panic p \<Rightarrow> Panic p)"

definition planCreate :: "env \<Rightarrow> DomainConfig \<Rightarrow> Correlation \<Rightarrow> Correction result" where
  "planCreate e dc cre =
     (case Desired cre of
        None \<Rightarrow> Panic NilDereference
      | Some d \<Rightarrow>
          Ok \<lparr>Msg = CorrelationString e cre,
              F = CreateRecord
                    \<lparr>recType = rcType d, recId = [], recZoneId = dcName dc,
                     recName = rcName d, recValue = GetTargetCombined e d,
                     recTTL = ucast (rcTTL d)\<rparr>\<rparr>)"

definition planModify :: "env \<Rightarrow> DomainConfig \<Rightarrow> Correlation \<Rightarrow> Correction result" where
  "planModify e dc modif =
     (case Desired modif of
        None \<Rightarrow> Panic NilDereference
      | Some d \<Rightarrow>
          (case originalRecord (Existing modif) of
             Ok original \<Rightarrow>
               Ok \<lparr>Msg = CorrelationString e modif,
                   F = UpdateRecord
                         \<lparr>recType = rcType d, recId = recId original, recZoneId = dcName dc,
                          recName = rcName d, recValue = GetTargetCombined e d,
                          recTTL = ucast (rcTTL d)\<rparr>\<rparr>
           | Err err \<Rightarrow> Err err
           | Panic p \<Rightarrow> Panic p))"

fun plan_loop ::
  "(Correlation \<Rightarrow> Correction result) \<Rightarrow> Correlation list \<Rightarrow> Correction list
     \<Rightarrow> Correction list result" where
  "plan_loop plan [] corrections = Ok corrections"
| "plan_loop plan (c # cs) corrections =
     (case plan c of
        Ok correction \<Rightarrow> plan_loop plan cs (corrections @ [correction])
      | Err err \<Rightarrow> Err err
      | Panic p \<Rightarrow> Panic p)"

definition planCorrections ::
  "env \<Rightarrow> DomainConfig \<Rightarrow> Correlation list \<Rightarrow> Correlation list \<Rightarrow> Correlation list
     \<Rightarrow> Correction list result" where
  "planCorrections e dc toCreate toDelete toModify =
     (case plan_loop (planDelete e) toDelete [] of
        Ok corrections \<Rightarrow>
          (case plan_loop (planCreate e dc) toCreate corrections of
             Ok corrections \<Rightarrow> plan_loop (planModify e dc) toModify corrections
           | Err err \<Rightarrow> Err err
           | Panic p \<Rightarrow> Panic p)
      | Err err \<Rightarrow> Err err
      | Panic p \<Rightarrow> Panic p)"

text \<open>The SOA record is locked: it is taken out of the records read from the zone.\<close>

definition pruneSOA :: "RecordConfig list \<Rightarrow> RecordConfig list" where
  "pruneSOA records = filter (\<lambda>r. rcType r \<noteq> ''SOA'') records"

definition GetDomainCorrections ::
  "env \<Rightarrow> nat \<Rightarrow> DomainConfig \<Rightarrow> Correction list result option" where
  "GetDomainCorrections e fuel dc =
     (case Punycode e dc of
        Inl err \<Rightarrow> Some (Err err)
      | Inr dc \<Rightarrow>
          (case GetZoneRecords e fuel (dcName dc) of
             None \<Rightarrow> None
           | Some (Err err) \<Rightarrow> Some (Err err)
           | Some (Panic p) \<Rightarrow> Some (Panic p)
           | Some (Ok records) \<Rightarrow>
               (let prunedRecords = PostProcessRecords e (pruneSOA records)
                in case IncrementalDiff e dc prunedRecords of
                     Inl err \<Rightarrow> Some (Err err)
                   | Inr (unchanged, toCreate, toDelete, toModify) \<Rightarrow>
                       Some (planCorrections e dc toCreate toDelete toModify))))"

section \<open>The spec's side\<close>

subsection \<open>The encoder as the spec words it\<close>

text \<open>
  The RRset the spec asks for a key: all records of the list with that key, their
  values in the order supplied, under the minimum of their TTLs, named by the label
  (the origin for the apex marker) and the type of the key. It is compared with
  \<open>recordsToNative\<close> below.
\<close>

definition groupRRset ::
  "encoder \<Rightarrow> string \<Rightarrow> RecordConfig list \<Rightarrow> RecordKey \<Rightarrow> DomainRecord" where
  "groupRRset combine origin rcs k =
     (let members = filter (\<lambda>r. Key r = k) rcs
      in \<lparr>RrsetType = snd k,
          RrsetTTL = ucast (Min (set (map rcTTL members))),
          RrsetName = (if fst k = ''@'' then origin else fst k),
          RrsetValues = map combine members\<rparr>)"

subsection \<open>Decoding a zone\<close>

text \<open>
  Modelled from the spec: the loop of the gandiv5 provider over the records of a zone
  is not under src/. The spec's \<open>decode\<close> takes the native records in order, decodes
  each with the same origin, and a record that fails aborts the whole decode.
\<close>

fun decode :: "parser \<Rightarrow> DomainRecord list \<Rightarrow> string \<Rightarrow> error + RecordConfig list" where
  "decode parse [] origin = Inr []"
| "decode parse (n # ns) origin =
     (case nativeToRecords parse n origin of
        Inl err \<Rightarrow> Inl err
      | Inr rcs \<Rightarrow>
          (case decode parse ns origin of
             Inl err \<Rightarrow> Inl err
           | Inr rest \<Rightarrow> Inr (rcs @ rest)))"

text \<open>
  What the round trip relies on in the functions it calls, which are not under src/
  (\<open>GetTargetCombinedFunc\<close> and the value parsers): the value parser reads the
  encoded value of a record back as its target, as the spec asks of the value
  grammar. An ALIAS is decoded without the parser, so its encoded value is the target
  itself.
\<close>

definition lossless :: "parser \<Rightarrow> encoder \<Rightarrow> string \<Rightarrow> RecordConfig \<Rightarrow> bool" where
  "lossless parse combine origin r =
     (if rcType r = ''ALIAS'' then combine r = rcTarget r
      else parse (rcType r) (combine r) origin = Some (rcTarget r))"

text \<open>
  The canonical record the spec compares after a round trip: its type, target and
  TTL, and its label, where the apex marker and the literal origin string are one
  label (spec section 3). The native handle belongs to the adapter, which sets it
  when it decodes; it is left out of the comparison.
\<close>

definition canonical :: "string \<Rightarrow> RecordConfig \<Rightarrow> RecordConfig" where
  "canonical origin r =
     r\<lparr>rcName := (if rcName r = ''@'' \<or> rcName r = origin then ''@'' else rcName r),
       rcOriginal := NoOriginal\<rparr>"

subsection \<open>The differ\<close>

text \<open>
  Modelled from the spec: \<open>IncrementalDiff\<close> of package diff is not under src/. The
  spec's differ looks records up by key. A key only in the desired set is to create,
  a key only in the existing set is to delete, and a key in both is unchanged when
  type, target and TTL agree and to modify otherwise, with the desired and the
  existing record. Of several existing records with one key the earliest is compared
  and the others are deleted.
\<close>

definition sameContent :: "RecordConfig \<Rightarrow> RecordConfig \<Rightarrow> bool" where
  "sameContent d x = (rcType d = rcType x \<and> rcTarget d = rcTarget x \<and> rcTTL d = rcTTL x)"

fun splitDuplicates ::
  "RecordKey list \<Rightarrow> RecordConfig list \<Rightarrow> RecordConfig list \<times> RecordConfig list" where
  "splitDuplicates seen [] = ([], [])"
| "splitDuplicates seen (x # xs) =
     (let (firsts, extras) = splitDuplicates (Key x # seen) xs
      in if Key x \<in> set seen then (firsts, x # extras) else (x # firsts, extras))"

definition specDiff :: "DomainConfig \<Rightarrow> RecordConfig list \<Rightarrow> error + diff_result" where
  "specDiff dc existing =
     (let desired = dcRecords dc;
          (firsts, extras) = splitDuplicates [] existing;
          pairs = map (\<lambda>d. (d, find (\<lambda>x. Key x = Key d) firsts)) desired;
          unchanged = [\<lparr>Existing = Some x, Desired = Some d\<rparr>. (d, Some x) \<leftarrow> pairs,
                       sameContent d x];
          toCreate = [\<lparr>Existing = None, Desired = Some d\<rparr>. (d, None) \<leftarrow> pairs];
          toDelete = [\<lparr>Existing = Some x, Desired = None\<rparr>. x \<leftarrow> firsts,
                      Key x \<notin> Key ` set desired]
                     @ [\<lparr>Existing = Some x, Desired = None\<rparr>. x \<leftarrow> extras];
          toModify = [\<lparr>Existing = Some x, Desired = Some d\<rparr>. (d, Some x) \<leftarrow> pairs,
                      \<not> sameContent d x]
      in Inr (unchanged, toCreate, toDelete, toModify))"

text \<open>
  What the provider relies on in the functions it calls: the differ reports, as the
  existing record of a deletion or a modification, a record of the existing set it
  was given; and the normalisation of \<open>PostProcessRecords\<close> keeps the type and the
  native handle of every record.
\<close>

definition differ_reports_given :: "env \<Rightarrow> bool" where
  "differ_reports_given e =
     (\<forall>dc existing unchanged toCreate toDelete toModify.
        IncrementalDiff e dc existing = Inr (unchanged, toCreate, toDelete, toModify) \<longrightarrow>
        (\<forall>c \<in> set toDelete \<union> set toModify. \<exists>r \<in> set existing. Existing c = Some r))"

definition normalise_keeps_handles :: "env \<Rightarrow> bool" where
  "normalise_keeps_handles e =
     (\<forall>rs. map (\<lambda>r. (rcType r, rcOriginal r)) (PostProcessRecords e rs)
           = map (\<lambda>r. (rcType r, rcOriginal r)) rs)"

section \<open>Example inputs\<close>

text \<open>
  A value grammar that takes every value as it is, with the encoder that writes the
  target back, and two orders a Go map iteration may take.
\<close>

definition rawEncoder :: encoder where
  "rawEncoder r = rcTarget r"

definition rawParser :: parser where
  "rawParser rtype contents origin = Some contents"

definition insertionOrder :: map_order where
  "insertionOrder m = m"

definition reverseOrder :: map_order where
  "reverseOrder m = rev m"

definition exA300 :: RecordConfig where
  "exA300 = \<lparr>rcType = ''A'', rcName = ''www'', rcTTL = 300, rcTarget = ''1.2.3.4'',
     rcOriginal = NoOriginal\<rparr>"

definition exA3600 :: RecordConfig where
  "exA3600 = \<lparr>rcType = ''A'', rcName = ''www'', rcTTL = 3600, rcTarget = ''5.6.7.8'',
     rcOriginal = NoOriginal\<rparr>"


definition exOriginLabel :: RecordConfig where
  "exOriginLabel = \<lparr>rcType = ''A'', rcName = ''example.com'', rcTTL = 300,
     rcTarget = ''5.6.7.8'', rcOriginal = NoOriginal\<rparr>"

definition exMail :: RecordConfig where
  "exMail = \<lparr>rcType = ''MX'', rcName = ''@'', rcTTL = 300,
     rcTarget = ''10 mx.example.com.'', rcOriginal = NoOriginal\<rparr>"

text \<open>A value grammar that refuses the text \<open>bogus\<close> and takes every other value as it is.\<close>

definition strictParser :: parser where
  "strictParser rtype contents origin = (if contents = ''bogus'' then None else Some contents)"

definition exRRset :: DomainRecord where
  "exRRset = \<lparr>RrsetType = ''A'', RrsetTTL = 300, RrsetName = ''www'',
     RrsetValues = [''1.2.3.4'', ''5.6.7.8'']\<rparr>"

definition exBadRRset :: DomainRecord where
  "exBadRRset = \<lparr>RrsetType = ''A'', RrsetTTL = 300, RrsetName = ''www'',
     RrsetValues = [''1.2.3.4'', ''bogus'', ''5.6.7.8'']\<rparr>"

text \<open>
  A zone \<open>example.com\<close> at the server, with its SOA record and two address records,
  listed on one page or on two pages of one record each; a server that knows no
  zone; and the functions the provider calls, with the differ of the spec.
\<close>

definition exZone :: Zone where
  "exZone = \<lparr>zoneId = ''zone1'', zoneName = ''example.com'',
     zoneNS = [''ns1.example.com'', ''ns2.example.com''], zoneTTL = 86400\<rparr>"

definition exSoa :: Record where
  "exSoa = \<lparr>recType = ''SOA'', recId = ''id-soa'', recZoneId = ''zone1'', recName = ''@'',
     recValue = ''ns1.example.com. hostmaster.example.com. 1 2 3 4 5'', recTTL = 3600\<rparr>"

definition exWww :: Record where
  "exWww = \<lparr>recType = ''A'', recId = ''id-www'', recZoneId = ''zone1'', recName = ''www'',
     recValue = ''1.2.3.4'', recTTL = 600\<rparr>"

definition exFtp :: Record where
  "exFtp = \<lparr>recType = ''A'', recId = ''id-ftp'', recZoneId = ''zone1'', recName = ''ftp'',
     recValue = ''5.6.7.8'', recTTL = 600\<rparr>"

definition page :: "nat \<Rightarrow> nat \<Rightarrow> Meta option" where
  "page p l = Some \<lparr>Pagination = \<lparr>Page = of_nat p, LastPage = of_nat l\<rparr>\<rparr>"

definition oneZone :: "Zone listing" where
  "oneZone name p = Success (if name = ''example.com'' then [exZone] else []) (page 1 1)"

definition noZones :: "Zone listing" where
  "noZones name p = Success [] (page 1 1)"

definition onePage :: "Record listing" where
  "onePage zoneID p = Success (if zoneID = ''zone1'' then [exSoa, exWww] else []) (page 1 1)"

definition twoPages :: "Record listing" where
  "twoPages zoneID p =
     (if zoneID \<noteq> ''zone1'' then Failure ''zone not found''
      else if p = None \<or> p = Some 1 then Success [exWww] (page 1 2)
      else if p = Some 2 then Success [exFtp] (page 2 2)
      else Failure ''page not found'')"

definition describe :: "Correlation \<Rightarrow> string" where
  "describe c =
     (case (Existing c, Desired c) of
        (None, Some d) \<Rightarrow> ''CREATE '' @ rcType d @ '' '' @ rcName d
      | (Some x, None) \<Rightarrow> ''DELETE '' @ rcType x @ '' '' @ rcName x
      | (Some x, Some d) \<Rightarrow> ''MODIFY '' @ rcType d @ '' '' @ rcName d
      | (None, None) \<Rightarrow> [])"

definition exEnv :: "Zone listing \<Rightarrow> Record listing \<Rightarrow> (nat \<Rightarrow> nat) \<Rightarrow> env" where
  "exEnv zones records g =
     \<lparr>zonesAPI = zones, recordsAPI = records, grow = g, parseValue = rawParser,
      Punycode = Inr, PostProcessRecords = (\<lambda>rs. rs), IncrementalDiff = specDiff,
      CorrelationString = describe, GetTargetCombined = rcTarget, ToNameservers = Inr\<rparr>"

definition doubling :: "nat \<Rightarrow> nat" where
  "doubling c = 2 * c"

definition exDesired :: DomainConfig where
  "exDesired = \<lparr>dcName = ''example.com'', dcRecords = [exA300]\<rparr>"

definition exNoRecords :: DomainConfig where
  "exNoRecords = \<lparr>dcName = ''example.com'', dcRecords = []\<rparr>"

section \<open>The encoding loop\<close>

lemma addToZoneRecord_fields:
  "RrsetType (addToZoneRecord c r zr) = RrsetType zr"
  "RrsetName (addToZoneRecord c r zr) = RrsetName zr"
  "RrsetValues (addToZoneRecord c r zr) = RrsetValues zr @ [c r]"
  by (simp_all add: addToZoneRecord_def Let_def)

lemma ucast_ttl_id: "(ucast (ucast (t :: uint32) :: go_int) :: uint32) = t"
  by (simp add: ucast_up_ucast_id is_up)

lemma addToZoneRecord_ttl:
  "RrsetTTL zr = ucast (t :: uint32) \<Longrightarrow>
   RrsetTTL (addToZoneRecord c r zr) = ucast (min t (rcTTL r))"
  by (auto simp add: addToZoneRecord_def Let_def ucast_ttl_id min_def)

lemma fold_add_fields:
  "RrsetType (fold (addToZoneRecord c) rs zr) = RrsetType zr"
  "RrsetName (fold (addToZoneRecord c) rs zr) = RrsetName zr"
  "RrsetValues (fold (addToZoneRecord c) rs zr) = RrsetValues zr @ map c rs"
  by (induction rs arbitrary: zr; simp add: addToZoneRecord_fields)+

lemma fold_add_ttl:
  "RrsetTTL zr = ucast (t :: uint32) \<Longrightarrow>
   RrsetTTL (fold (addToZoneRecord c) rs zr) = ucast (Min (insert t (rcTTL ` set rs)))"
proof (induction rs arbitrary: zr t)
  case Nil
  then show ?case by simp
next
  case (Cons r rs)
  have "RrsetTTL (addToZoneRecord c r zr) = ucast (min t (rcTTL r))"
    using Cons.prems by (rule addToZoneRecord_ttl)
  from Cons.IH [OF this]
  have "RrsetTTL (fold (addToZoneRecord c) (r # rs) zr)
        = ucast (Min (insert (min t (rcTTL r)) (rcTTL ` set rs)))" by simp
  also have "Min (insert (min t (rcTTL r)) (rcTTL ` set rs))
        = Min (insert t (rcTTL ` set (r # rs)))"
    by (cases "set rs = {}") (simp_all add: min.assoc)
  finally show ?case .
qed

lemma loop_distinct:
  "distinct (map fst keys) \<Longrightarrow> distinct (map fst (recordsToNative_loop c origin rcs keys))"
proof (induction rcs arbitrary: keys)
  case Nil then show ?case by simp
next
  case (Cons r rcs)
  show ?case
  proof (cases "map_of keys (Key r)")
    case None
    then have "Key r \<notin> fst ` set keys" by (simp add: map_of_eq_None_iff)
    with Cons.prems have "distinct (map fst (keys @ [(Key r, newZoneRecord c origin r)]))"
      by simp
    from Cons.IH [OF this] None show ?thesis by simp
  next
    case (Some zr)
    have "distinct (map fst (AList.update (Key r) (addToZoneRecord c r zr) keys))"
      using Cons.prems by (rule distinct_update)
    from Cons.IH [OF this] Some show ?thesis by simp
  qed
qed

lemma loop_lookup:
  "map_of (recordsToNative_loop c origin rcs keys) k =
     (case map_of keys k of
        Some zr \<Rightarrow> Some (fold (addToZoneRecord c) (filter (\<lambda>r. Key r = k) rcs) zr)
      | None \<Rightarrow>
          (case filter (\<lambda>r. Key r = k) rcs of
             [] \<Rightarrow> None
           | r # rs \<Rightarrow> Some (fold (addToZoneRecord c) rs (newZoneRecord c origin r))))"
proof (induction rcs arbitrary: keys)
  case Nil then show ?case by (simp split: option.splits)
next
  case (Cons r rcs)
  show ?case
  proof (cases "map_of keys (Key r)")
    case None
    then have notin: "Key r \<notin> fst ` set keys" by (simp add: map_of_eq_None_iff)
    show ?thesis
      using None Cons.IH [of "keys @ [(Key r, newZoneRecord c origin r)]"]
      by (auto simp add: map_add_def split: option.splits list.splits)
  next
    case (Some zr)
    show ?thesis
      using Some Cons.IH [of "AList.update (Key r) (addToZoneRecord c r zr) keys"]
      by (auto simp add: update_conv' split: option.splits list.splits)
  qed
qed

lemma loop_dom:
  "fst ` set (recordsToNative_loop c origin rcs keys) = fst ` set keys \<union> Key ` set rcs"
proof (induction rcs arbitrary: keys)
  case Nil then show ?case by simp
next
  case (Cons r rcs)
  show ?case
  proof (cases "map_of keys (Key r)")
    case None
    then show ?thesis using Cons.IH [of "keys @ [(Key r, newZoneRecord c origin r)]"]
      by auto
  next
    case (Some zr)
    then have "Key r \<in> fst ` set keys" by (meson domI domIff map_of_eq_None_iff)
    then show ?thesis
      using Some Cons.IH [of "AList.update (Key r) (addToZoneRecord c r zr) keys"]
      by (auto simp add: dom_update)
  qed
qed

lemma newZoneRecord_fields:
  "RrsetType (newZoneRecord c origin r) = snd (Key r)"
  "RrsetName (newZoneRecord c origin r) = (if fst (Key r) = ''@'' then origin else fst (Key r))"
  "RrsetValues (newZoneRecord c origin r) = [c r]"
  "RrsetTTL (newZoneRecord c origin r) = ucast (rcTTL r)"
  by (simp_all add: newZoneRecord_def Key_def GetLabel_def Let_def)

lemma loop_group:
  assumes "k \<in> Key ` set rcs"
  shows "map_of (recordsToNative_loop c origin rcs []) k = Some (groupRRset c origin rcs k)"
proof -
  from assms obtain r0 rs where f: "filter (\<lambda>r. Key r = k) rcs = r0 # rs"
    by (cases "filter (\<lambda>r. Key r = k) rcs") (auto simp add: filter_empty_conv)
  then have "r0 \<in> set (filter (\<lambda>r. Key r = k) rcs)" by simp
  then have k: "Key r0 = k" by simp
  let ?zr = "fold (addToZoneRecord c) rs (newZoneRecord c origin r0)"
  have look: "map_of (recordsToNative_loop c origin rcs []) k = Some ?zr"
    by (simp add: loop_lookup f)
  have "RrsetTTL ?zr = ucast (Min (insert (rcTTL r0) (rcTTL ` set rs)))"
    by (rule fold_add_ttl) (simp add: newZoneRecord_fields)
  then have "?zr = groupRRset c origin rcs k"
    by (simp add: groupRRset_def f fold_add_fields newZoneRecord_fields k)
  with look show ?thesis by simp
qed

lemma loop_group_list:
  "distinct ks \<Longrightarrow> set ks = Key ` set rcs \<Longrightarrow>
   mset (recordsToNative_loop c origin rcs []) = mset (map (\<lambda>k. (k, groupRRset c origin rcs k)) ks)"
proof -
  assume d: "distinct ks" and s: "set ks = Key ` set rcs"
  let ?m = "recordsToNative_loop c origin rcs []"
  let ?g = "map (\<lambda>k. (k, groupRRset c origin rcs k)) ks"
  have d1: "distinct (map fst ?m)" by (rule loop_distinct) simp
  then have d1': "distinct ?m" by (rule distinct_map [THEN iffD1, THEN conjunct1])
  have d2: "distinct ?g" using d by (simp add: distinct_map inj_on_def)
  have e: "set ?m = set ?g"
  proof (rule set_eqI)
    fix p :: "RecordKey \<times> DomainRecord"
    obtain k zr where p: "p = (k, zr)" by (cases p)
    have "(k, zr) \<in> set ?m \<longleftrightarrow> map_of ?m k = Some zr"
      using d1 by (simp add: map_of_eq_Some_iff)
    also have "\<dots> \<longleftrightarrow> (k \<in> Key ` set rcs \<and> zr = groupRRset c origin rcs k)"
    proof (cases "k \<in> Key ` set rcs")
      case True then show ?thesis by (auto simp add: loop_group)
    next
      case False
      then have "k \<notin> fst ` set ?m" by (simp add: loop_dom)
      then have "map_of ?m k = None" by (simp add: map_of_eq_None_iff)
      with False show ?thesis by simp
    qed
    also have "\<dots> \<longleftrightarrow> (k, zr) \<in> set ?g" using s by auto
    finally show "p \<in> set ?m \<longleftrightarrow> p \<in> set ?g" by (simp add: p)
  qed
  show ?thesis
    by (rule set_eq_iff_mset_eq_distinct [THEN iffD1, OF d1' d2 e])
qed

lemma output_mset:
  assumes "map_iteration order"
  shows "mset (recordsToNative c order rcs origin)
         = mset (map (groupRRset c origin rcs) (remdups (map Key rcs)))"
proof -
  let ?m = "recordsToNative_loop c origin rcs []"
  have "mset (order ?m) = mset ?m" using assms by (simp add: map_iteration_def)
  also have "\<dots> = mset (map (\<lambda>k. (k, groupRRset c origin rcs k)) (remdups (map Key rcs)))"
    by (rule loop_group_list) simp_all
  finally have "mset (map snd (order ?m))
      = mset (map snd (map (\<lambda>k. (k, groupRRset c origin rcs k)) (remdups (map Key rcs))))"
    by (metis mset_map)
  then show ?thesis by (simp add: recordsToNative_def comp_def)
qed

lemma group_in_output:
  assumes "map_iteration order" and "k \<in> Key ` set rcs"
  shows "groupRRset c origin rcs k \<in> set (recordsToNative c order rcs origin)"
proof -
  have "set (recordsToNative c order rcs origin)
        = set (map (groupRRset c origin rcs) (remdups (map Key rcs)))"
    using output_mset [OF assms(1)] by (metis set_mset_mset)
  with assms(2) show ?thesis by auto
qed


lemma map_iteration_insertionOrder: "map_iteration insertionOrder"
  by (simp add: map_iteration_def insertionOrder_def)

lemma map_iteration_reverseOrder: "map_iteration reverseOrder"
  by (simp add: map_iteration_def reverseOrder_def)

lemmas eval_encode = recordsToNative_def Key_def GetLabel_def newZoneRecord_def
  addToZoneRecord_def rawEncoder_def insertionOrder_def reverseOrder_def Let_def


lemma groupRRset_fields:
  "RrsetType (groupRRset c origin rcs k) = snd k"
  "RrsetName (groupRRset c origin rcs k) = (if fst k = ''@'' then origin else fst k)"
  "RrsetValues (groupRRset c origin rcs k) = map c (filter (\<lambda>r. Key r = k) rcs)"
  by (simp_all add: groupRRset_def Let_def)


section \<open>The decoding loop\<close>

lemma decodeValue_Inr:
  assumes "decodeValue parse n origin v = Inr rc"
  shows "rcName rc = (if RrsetName n = ''@'' \<or> RrsetName n = origin then ''@'' else RrsetName n)"
    and "rcType rc = RrsetType n"
    and "rcTTL rc = ucast (RrsetTTL n)"
    and "rcOriginal rc = GandiOriginal n"
    and "RrsetType n = ''ALIAS'' \<Longrightarrow> rcTarget rc = v"
    and "RrsetType n \<noteq> ''ALIAS'' \<Longrightarrow> parse (RrsetType n) v origin = Some (rcTarget rc)"
  using assms
  by (auto simp add: decodeValue_def SetLabel_def SetTarget_def PopulateFromStringFunc_def
        newRecordConfig_def Let_def split: if_splits option.splits)

lemma nativeToRecords_loop_Inr:
  "nativeToRecords_loop parse n origin vs rcs = Inr out \<Longrightarrow>
   \<exists>new. out = rcs @ new \<and> list_all2 (\<lambda>v rc. decodeValue parse n origin v = Inr rc) vs new"
proof (induction vs arbitrary: rcs)
  case Nil then show ?case by simp
next
  case (Cons v vs)
  from Cons.prems obtain rc where d: "decodeValue parse n origin v = Inr rc"
    and l: "nativeToRecords_loop parse n origin vs (rcs @ [rc]) = Inr out"
    by (auto split: sum.splits)
  from Cons.IH [OF l] obtain new where "out = (rcs @ [rc]) @ new"
    and "list_all2 (\<lambda>v rc. decodeValue parse n origin v = Inr rc) vs new" by blast
  with d show ?case by (intro exI [of _ "rc # new"]) simp
qed

lemma nativeToRecords_Inr:
  "nativeToRecords parse n origin = Inr rcs \<Longrightarrow>
   list_all2 (\<lambda>v rc. decodeValue parse n origin v = Inr rc) (RrsetValues n) rcs"
  unfolding nativeToRecords_def by (drule nativeToRecords_loop_Inr) simp


lemmas eval_decode = nativeToRecords_def decodeValue_def SetLabel_def SetTarget_def
  PopulateFromStringFunc_def newRecordConfig_def MalformedRecord_def Let_def
  rawParser_def strictParser_def


lemma decodeValue_unparsable:
  "RrsetType n \<noteq> ''ALIAS'' \<Longrightarrow> parse (RrsetType n) v origin = None \<Longrightarrow>
   decodeValue parse n origin v =
     Inl (''malformed record: label=''
          @ (if RrsetName n = ''@'' \<or> RrsetName n = origin then ''@'' else RrsetName n)
          @ '' type='' @ RrsetType n @ '' value='' @ v)"
  by (simp add: decodeValue_def PopulateFromStringFunc_def MalformedRecord_def SetLabel_def
        newRecordConfig_def)

lemma decodeValue_parsable:
  "RrsetType n \<noteq> ''ALIAS'' \<Longrightarrow> parse (RrsetType n) v origin \<noteq> None \<Longrightarrow>
   \<exists>rc. decodeValue parse n origin v = Inr rc"
  by (auto simp add: decodeValue_def PopulateFromStringFunc_def)

lemma nativeToRecords_loop_unparsable:
  assumes "RrsetType n \<noteq> ''ALIAS''"
    and "\<forall>u \<in> set pre. parse (RrsetType n) u origin \<noteq> None"
    and "parse (RrsetType n) v origin = None"
  shows "nativeToRecords_loop parse n origin (pre @ v # suf) rcs =
     Inl (''unparsable record received from gandi: '' @ ''malformed record: label=''
          @ (if RrsetName n = ''@'' \<or> RrsetName n = origin then ''@'' else RrsetName n)
          @ '' type='' @ RrsetType n @ '' value='' @ v)"
  using assms(2)
proof (induction pre arbitrary: rcs)
  case Nil
  show ?case using decodeValue_unparsable [where parse = parse and n = n and v = v and origin = origin, OF assms(1) assms(3)] by simp
next
  case (Cons u pre)
  then have "parse (RrsetType n) u origin \<noteq> None" by simp
  from decodeValue_parsable [where parse = parse and n = n and v = u and origin = origin, OF assms(1) this]
  obtain rc where "decodeValue parse n origin u = Inr rc" by blast
  with Cons show ?case by simp
qed


lemma decode_singletons:
  "\<forall>z \<in> set zs. nativeToRecords parse z origin = Inr [d z] \<Longrightarrow>
   decode parse zs origin = Inr (map d zs)"
  by (induction zs) simp_all

lemma roundtrip_record:
  assumes "lossless parse combine origin r"
  shows "nativeToRecords parse (newZoneRecord combine origin r) origin =
           Inr [r\<lparr>rcName := (if rcName r = ''@'' \<or> rcName r = origin then ''@'' else rcName r),
                  rcOriginal := GandiOriginal (newZoneRecord combine origin r)\<rparr>]"
proof (cases "rcType r = ''ALIAS''")
  case True
  with assms show ?thesis
    by (simp add: nativeToRecords_def decodeValue_def SetLabel_def SetTarget_def
          newRecordConfig_def newZoneRecord_def GetLabel_def lossless_def Let_def ucast_ttl_id)
next
  case False
  with assms show ?thesis
    by (simp add: nativeToRecords_def decodeValue_def SetLabel_def PopulateFromStringFunc_def
          newRecordConfig_def newZoneRecord_def GetLabel_def lossless_def Let_def ucast_ttl_id)
qed

lemma filter_unique_key:
  "distinct (map Key rcs) \<Longrightarrow> r \<in> set rcs \<Longrightarrow> filter (\<lambda>x. Key x = Key r) rcs = [r]"
proof (induction rcs)
  case Nil then show ?case by simp
next
  case (Cons a rcs)
  show ?case
  proof (cases "r = a")
    case True
    from Cons.prems(1) have "Key a \<notin> Key ` set rcs" by simp
    then have "\<forall>x \<in> set rcs. Key x \<noteq> Key a" by (metis imageI)
    then have "filter (\<lambda>x. Key x = Key a) rcs = []" by (simp add: filter_empty_conv)
    with True show ?thesis by simp
  next
    case False
    with Cons.prems have r: "r \<in> set rcs" and "Key a \<noteq> Key r" by auto
    with Cons show ?thesis by simp
  qed
qed

lemma groupRRset_unique_key:
  assumes "distinct (map Key rcs)" and "r \<in> set rcs"
  shows "groupRRset c origin rcs (Key r) = newZoneRecord c origin r"
proof -
  have f: "filter (\<lambda>x. Key x = Key r) rcs = [r]" using assms by (rule filter_unique_key)
  have "groupRRset c origin rcs (Key r) =
          \<lparr>RrsetType = snd (Key r), RrsetTTL = ucast (rcTTL r),
           RrsetName = (if fst (Key r) = ''@'' then origin else fst (Key r)),
           RrsetValues = [c r]\<rparr>"
    unfolding groupRRset_def Let_def f by simp
  then show ?thesis by (simp add: newZoneRecord_def GetLabel_def Key_def Let_def)
qed

lemma output_unique_keys:
  assumes "map_iteration order" and "distinct (map Key rcs)"
  shows "mset (recordsToNative c order rcs origin) = mset (map (newZoneRecord c origin) rcs)"
proof -
  have "mset (recordsToNative c order rcs origin)
        = mset (map (groupRRset c origin rcs) (remdups (map Key rcs)))"
    using assms(1) by (rule output_mset)
  also have "remdups (map Key rcs) = map Key rcs"
    using assms(2) by (rule distinct_remdups_id)
  also have "map (groupRRset c origin rcs) (map Key rcs) = map (newZoneRecord c origin) rcs"
    by (simp add: groupRRset_unique_key [OF assms(2)])
  finally show ?thesis .
qed


lemma canonical_decoded:
  "canonical origin
     (r\<lparr>rcName := (if rcName r = ''@'' \<or> rcName r = origin then ''@'' else rcName r),
        rcOriginal := h\<rparr>) = canonical origin r"
  by (simp add: canonical_def)

section \<open>The planner of corrections\<close>

lemma plan_loop_Ok:
  "plan_loop plan cs acc = Ok out \<Longrightarrow>
   \<exists>new. out = acc @ new \<and> list_all2 (\<lambda>c correction. plan c = Ok correction) cs new"
proof (induction cs arbitrary: acc)
  case Nil then show ?case by simp
next
  case (Cons c cs)
  from Cons.prems obtain correction where p: "plan c = Ok correction"
    and l: "plan_loop plan cs (acc @ [correction]) = Ok out"
    by (auto split: result.splits)
  from Cons.IH [OF l] obtain new where "out = (acc @ [correction]) @ new"
    and "list_all2 (\<lambda>c correction. plan c = Ok correction) cs new" by blast
  with p show ?case by (intro exI [of _ "correction # new"]) simp
qed

lemma originalRecord_Ok:
  "originalRecord rc = Ok original \<Longrightarrow> \<exists>x. rc = Some x \<and> rcOriginal x = HetznerOriginal original"
  by (auto simp add: originalRecord_def split: option.splits original.splits)

lemma planDelete_Ok:
  "planDelete e del = Ok c \<Longrightarrow>
   \<exists>x record. Existing del = Some x \<and> rcOriginal x = HetznerOriginal record
      \<and> c = \<lparr>Msg = CorrelationString e del, F = DeleteRecord record\<rparr>"
  by (auto simp add: planDelete_def split: result.splits dest: originalRecord_Ok)

lemma planCreate_Ok:
  "planCreate e dc cre = Ok c \<Longrightarrow> \<exists>record. F c = CreateRecord record"
  by (auto simp add: planCreate_def split: option.splits)

lemma planModify_Ok:
  "planModify e dc modif = Ok c \<Longrightarrow>
   \<exists>d x original. Desired modif = Some d \<and> Existing modif = Some x
      \<and> rcOriginal x = HetznerOriginal original
      \<and> c = \<lparr>Msg = CorrelationString e modif,
              F = UpdateRecord
                    \<lparr>recType = rcType d, recId = recId original, recZoneId = dcName dc,
                     recName = rcName d, recValue = GetTargetCombined e d,
                     recTTL = ucast (rcTTL d)\<rparr>\<rparr>"
  by (auto simp add: planModify_def split: option.splits result.splits dest: originalRecord_Ok)

lemma planCorrections_Ok:
  assumes "planCorrections e dc toCreate toDelete toModify = Ok corrections"
  shows "\<exists>deletes creates updates.
           corrections = deletes @ creates @ updates
         \<and> list_all2 (\<lambda>c correction. planDelete e c = Ok correction) toDelete deletes
         \<and> list_all2 (\<lambda>c correction. planCreate e dc c = Ok correction) toCreate creates
         \<and> list_all2 (\<lambda>c correction. planModify e dc c = Ok correction) toModify updates"
proof -
  from assms obtain c1 c2 where
    a: "plan_loop (planDelete e) toDelete [] = Ok c1"
    and b: "plan_loop (planCreate e dc) toCreate c1 = Ok c2"
    and c: "plan_loop (planModify e dc) toModify c2 = Ok corrections"
    by (auto simp add: planCorrections_def split: result.splits)
  from plan_loop_Ok [OF a] obtain deletes where d: "c1 = deletes"
    and dl: "list_all2 (\<lambda>c correction. planDelete e c = Ok correction) toDelete deletes"
    by auto
  from plan_loop_Ok [OF b] obtain creates where cr: "c2 = c1 @ creates"
    and cl: "list_all2 (\<lambda>c correction. planCreate e dc c = Ok correction) toCreate creates"
    by auto
  from plan_loop_Ok [OF c] obtain updates where u: "corrections = c2 @ updates"
    and ul: "list_all2 (\<lambda>c correction. planModify e dc c = Ok correction) toModify updates"
    by auto
  from d cr u have "corrections = deletes @ creates @ updates" by simp
  with dl cl ul show ?thesis by blast
qed

lemma GetDomainCorrections_Ok:
  assumes "GetDomainCorrections e fuel dc = Some (Ok corrections)"
  shows "\<exists>dc' records unchanged toCreate toDelete toModify.
           Punycode e dc = Inr dc'
         \<and> GetZoneRecords e fuel (dcName dc') = Some (Ok records)
         \<and> IncrementalDiff e dc' (PostProcessRecords e (pruneSOA records))
              = Inr (unchanged, toCreate, toDelete, toModify)
         \<and> planCorrections e dc' toCreate toDelete toModify = Ok corrections"
  using assms
  by (auto simp add: GetDomainCorrections_def Let_def
        split: sum.splits option.splits result.splits prod.splits)

lemmas eval_provider = GetDomainCorrections_def GetZoneRecords_def GetNameservers_def
  GetZones_def GetRecords_def get_pages_def request_def unmarshal_slice_def
  go_append_def alloc_def set_elem_def elems_def cap_def emptyHeap_def nilSlice_def
  toRecordConfig_def PopulateFromString_def PopulateFromStringFunc_def SetLabel_def
  pruneSOA_def planCorrections_def planDelete_def planCreate_def planModify_def
  originalRecord_def specDiff_def sameContent_def Key_def describe_def exEnv_def
  oneZone_def noZones_def onePage_def page_def doubling_def rawParser_def Let_def


lemma splitDuplicates_subset:
  "splitDuplicates seen xs = (firsts, extras) \<Longrightarrow> set firsts \<union> set extras \<subseteq> set xs"
proof (induction xs arbitrary: seen firsts extras)
  case Nil then show ?case by simp
next
  case (Cons x xs)
  obtain f e where r: "splitDuplicates (Key x # seen) xs = (f, e)" by fastforce
  from Cons.IH [OF r] have "set f \<union> set e \<subseteq> set xs" .
  with Cons.prems r show ?case by (auto split: if_splits)
qed

lemma find_in_set: "find P xs = Some x \<Longrightarrow> x \<in> set xs"
  by (induction xs) (auto split: if_splits)

lemma specDiff_reports_given:
  assumes "specDiff dc existing = Inr (unchanged, toCreate, toDelete, toModify)"
    and "c \<in> set toDelete \<union> set toModify"
  shows "\<exists>r \<in> set existing. Existing c = Some r"
proof -
  obtain firsts extras where s: "splitDuplicates [] existing = (firsts, extras)" by fastforce
  from splitDuplicates_subset [OF s] have sub: "set firsts \<union> set extras \<subseteq> set existing" .
  let ?pairs = "map (\<lambda>d. (d, find (\<lambda>x. Key x = Key d) firsts)) (dcRecords dc)"
  from assms(1) s have
    d: "toDelete = [\<lparr>Existing = Some x, Desired = None\<rparr>. x \<leftarrow> firsts,
                      Key x \<notin> Key ` set (dcRecords dc)]
                   @ [\<lparr>Existing = Some x, Desired = None\<rparr>. x \<leftarrow> extras]"
    and m: "toModify = [\<lparr>Existing = Some x, Desired = Some d\<rparr>. (d, Some x) \<leftarrow> ?pairs,
                      \<not> sameContent d x]"
    by (simp_all add: specDiff_def Let_def)
  from assms(2) show ?thesis
  proof
    assume "c \<in> set toDelete"
    then have "\<exists>x \<in> set firsts \<union> set extras. Existing c = Some x"
      unfolding d by (auto split: if_splits)
    with sub show ?thesis by blast
  next
    assume "c \<in> set toModify"
    then obtain p where p: "p \<in> set ?pairs"
      and c: "c \<in> set (case p of (d, Some x) \<Rightarrow>
                  if \<not> sameContent d x then [\<lparr>Existing = Some x, Desired = Some d\<rparr>] else []
                | _ \<Rightarrow> [])"
      unfolding m by auto
    obtain d y where py: "p = (d, y)" by (cases p)
    with c obtain x where y: "y = Some x" and e: "Existing c = Some x"
      by (cases y) (auto split: if_splits)
    from p py y have "find (\<lambda>x. Key x = Key d) firsts = Some x" by auto
    then have "x \<in> set firsts" by (rule find_in_set)
    with sub e show ?thesis by blast
  qed
qed

lemma exEnv_differ: "differ_reports_given (exEnv zones records g)"
  unfolding differ_reports_given_def
  by (auto simp add: exEnv_def dest: specDiff_reports_given)

lemma exEnv_normalise: "normalise_keeps_handles (exEnv zones records g)"
  by (simp add: normalise_keeps_handles_def exEnv_def)

lemma normalise_member:
  assumes "normalise_keeps_handles e" and "x \<in> set (PostProcessRecords e rs)"
  shows "\<exists>r \<in> set rs. rcType r = rcType x \<and> rcOriginal r = rcOriginal x"
proof -
  let ?f = "\<lambda>r. (rcType r, rcOriginal r)"
  from assms(2) have "?f x \<in> set (map ?f (PostProcessRecords e rs))" by simp
  also have "map ?f (PostProcessRecords e rs) = map ?f rs"
    using assms(1) by (simp add: normalise_keeps_handles_def)
  finally obtain r where "r \<in> set rs" and "?f r = ?f x" by auto
  then show ?thesis by auto
qed

lemma list_all2_right:
  "list_all2 P xs ys \<Longrightarrow> y \<in> set ys \<Longrightarrow> \<exists>x \<in> set xs. P x y"
  by (induction rule: list_all2_induct) auto


section \<open>The pagination loop\<close>

lemma heap_ext_refl: "heap_ext h h"
  by (simp add: heap_ext_def)

lemma heap_ext_trans: "heap_ext h1 h2 \<Longrightarrow> heap_ext h2 h3 \<Longrightarrow> heap_ext h1 h3"
  by (auto simp add: heap_ext_def)

lemma heap_ext_set_elem: "heap_ext h (set_elem h s i x)"
proof (cases "ptr s < length h")
  case True
  then show ?thesis by (simp add: heap_ext_def set_elem_def nth_list_update)
next
  case False
  then show ?thesis by (simp add: heap_ext_def set_elem_def)
qed

lemma heap_ext_alloc: "alloc zero h xs c = (h', p) \<Longrightarrow> heap_ext h h'"
  by (auto simp add: heap_ext_def alloc_def nth_append)

lemma heap_ext_go_append: "go_append g zero h s x = (h', s') \<Longrightarrow> heap_ext h h'"
  by (auto simp add: go_append_def Let_def heap_ext_set_elem
        split: if_splits prod.splits dest: heap_ext_alloc)

lemma heap_ext_append_all: "append_all g zero h s xs = (h', s') \<Longrightarrow> heap_ext h h'"
proof (induction xs arbitrary: h s)
  case Nil then show ?case by (simp add: heap_ext_refl)
next
  case (Cons x xs)
  obtain h1 s1 where a: "go_append g zero h s x = (h1, s1)" by fastforce
  with Cons.prems have "append_all g zero h1 s1 xs = (h', s')" by simp
  from heap_ext_go_append [OF a] Cons.IH [OF this] show ?case by (rule heap_ext_trans)
qed

lemma decode_array_step:
  assumes "ptr s < length h" and "len s \<le> cap h s" and "i \<le> len s"
    and "decode_array g zero h s i xs = (h', s')"
  shows "heap_ext h h' \<and> ptr s' < length h' \<and> len s' = i + length xs \<and> len s' \<le> cap h' s'"
  using assms
proof (induction xs arbitrary: h s i)
  case Nil
  then show ?case by (auto simp add: heap_ext_refl cap_def split: if_splits)
next
  case (Cons x xs)
  define hs1 where "hs1 =
     (if cap h s \<le> i
      then (let (h', p) = alloc zero h (elems h s) (max (Suc i) (g (cap h s)))
            in (h', s\<lparr>ptr := p\<rparr>))
      else (h, s))"
  obtain h1 s1 where hs1: "hs1 = (h1, s1)" by fastforce
  define s2 where "s2 = (if len s1 \<le> i then s1\<lparr>len := Suc i\<rparr> else s1)"
  from Cons.prems(4) have rec: "decode_array g zero (set_elem h1 s2 i x) s2 (Suc i) xs = (h', s')"
    by (simp add: hs1_def [symmetric] hs1 s2_def [symmetric] Let_def)
  have e1: "heap_ext h h1" and p1: "ptr s1 < length h1" and l1: "len s1 = len s"
    and c1: "Suc i \<le> cap h1 s1" and c1': "len s1 \<le> cap h1 s1"
    using hs1 Cons.prems(1-3) unfolding hs1_def
    by (auto simp add: heap_ext_refl heap_ext_def alloc_def cap_def elems_def Let_def nth_append
          split: if_splits)
  have p2: "ptr s2 = ptr s1" and l2: "Suc i \<le> len s2" and l2': "len s2 \<le> cap h1 s2"
    using c1 c1' by (auto simp add: s2_def cap_def)
  let ?h2 = "set_elem h1 s2 i x"
  have e2: "heap_ext h1 ?h2" by (rule heap_ext_set_elem)
  have "ptr s2 < length ?h2" using p1 p2 by (simp add: set_elem_def)
  moreover have "len s2 \<le> cap ?h2 s2"
    using l2' p1 p2 by (simp add: cap_def set_elem_def)
  ultimately have "heap_ext ?h2 h' \<and> ptr s' < length h' \<and> len s' = Suc i + length xs
      \<and> len s' \<le> cap h' s'"
    using l2 rec by (intro Cons.IH) auto
  with e1 e2 show ?case by (auto intro: heap_ext_trans)
qed

lemma length_elems_ext:
  "heap_ext h h' \<Longrightarrow> ptr s < length h \<Longrightarrow> length (elems h' s) = length (elems h s)"
  by (simp add: heap_ext_def elems_def)

lemma unmarshal_slice_ext:
  assumes "ptr s < length h" and "len s \<le> cap h s"
    and "unmarshal_slice g zero h s js = (h', s')"
  shows "heap_ext h h'" and "length (elems h' s') = length js"
proof -
  show "heap_ext h h'"
  proof (cases "js = []")
    case True
    with assms(3) show ?thesis by (simp add: unmarshal_slice_def heap_ext_refl)
  next
    case False
    with assms(3) have "decode_array g zero h s 0 js = (h', s')"
      by (simp add: unmarshal_slice_def)
    from decode_array_step [OF assms(1,2) _ this] show ?thesis by simp
  qed
  show "length (elems h' s') = length js"
  proof (cases "js = []")
    case True
    with assms(3) have "s' = nilSlice" by (simp add: unmarshal_slice_def)
    with True show ?thesis by (simp add: nilSlice_def elems_def)
  next
    case False
    with assms(3) have "decode_array g zero h s 0 js = (h', s')"
      by (simp add: unmarshal_slice_def)
    from decode_array_step [OF assms(1,2) _ this]
    have "len s' = length js" and "len s' \<le> cap h' s'" by simp_all
    then show ?thesis by (simp add: elems_def cap_def)
  qed
qed

lemma request_ext:
  assumes "ptr s < length h" and "len s \<le> cap h s"
    and "request g zero h s reply = (h', s', meta, err)"
  shows "heap_ext h h'"
proof (cases reply)
  case (Failure e)
  with assms(3) show ?thesis by (simp add: request_def heap_ext_refl)
next
  case (Success js m)
  obtain h1 s1 where u: "unmarshal_slice g zero h s js = (h1, s1)" by fastforce
  with assms(3) Success have "h' = h1" by (simp add: request_def)
  with unmarshal_slice_ext(1) [OF assms(1,2) u] show ?thesis by simp
qed

lemma pages_loop_length:
  assumes "pages_loop fuel g zero get h response meta err = Some (xs, None)"
    and "ptr response < length h" and "len response \<le> cap h response"
  shows "length xs = length (elems h response)"
  using assms
proof (induction fuel arbitrary: h meta err)
  case 0
  then show ?case by simp
next
  case (Suc fuel)
  show ?case
  proof (cases meta)
    case None
    with Suc.prems(1) show ?thesis by simp
  next
    case (Some m)
    show ?thesis
    proof (cases "Page (Pagination m) < LastPage (Pagination m)")
      case False
      with Some Suc.prems(1) show ?thesis by simp
    next
      case True
      obtain h1 s1 meta1 err1 where
        r: "request g zero h response (get (Some (Page (Pagination m) + 1))) = (h1, s1, meta1, err1)"
        by (metis prod_cases4)
      obtain h2 s2 where a: "append_all g zero h1 s1 (elems h1 s1) = (h2, s2)" by fastforce
      from Suc.prems(1) Some True r a have e: "err1 = None"
        and l: "pages_loop fuel g zero get h2 response meta1 err1 = Some (xs, None)"
        by (auto simp add: Let_def split: option.splits)
      have x1: "heap_ext h h1" using Suc.prems(2,3) r by (rule request_ext)
      have x2: "heap_ext h1 h2" using a by (rule heap_ext_append_all)
      have x: "heap_ext h h2" using x1 x2 by (rule heap_ext_trans)
      have p2: "ptr response < length h2" using x Suc.prems(2) by (simp add: heap_ext_def)
      have c2: "len response \<le> cap h2 response"
        using x Suc.prems(2,3) by (simp add: heap_ext_def cap_def)
      from Suc.IH [OF l p2 c2] length_elems_ext [OF x Suc.prems(2)] show ?thesis by simp
    qed
  qed
qed

lemma get_pages_length:
  assumes "get_pages fuel g zero get = Some (xs, None)" and "get None = Success js meta"
  shows "length xs = length js"
proof -
  obtain h s where u: "unmarshal_slice g zero emptyHeap nilSlice js = (h, s)" by fastforce
  have p0: "ptr nilSlice < length (emptyHeap :: 'a heap)"
    and c0: "len nilSlice \<le> cap (emptyHeap :: 'a heap) nilSlice"
    by (simp_all add: nilSlice_def emptyHeap_def cap_def)
  from assms u have l: "pages_loop fuel g zero get h s meta None = Some (xs, None)"
    by (simp add: get_pages_def request_def)
  have len: "length (elems h s) = length js" using p0 c0 u by (rule unmarshal_slice_ext(2))
  have ps: "ptr s < length h \<and> len s \<le> cap h s"
  proof (cases "js = []")
    case True
    with u show ?thesis by (auto simp add: unmarshal_slice_def nilSlice_def emptyHeap_def cap_def)
  next
    case False
    with u have "decode_array g zero emptyHeap nilSlice 0 js = (h, s)"
      by (simp add: unmarshal_slice_def)
    from decode_array_step [OF p0 c0 _ this] show ?thesis by simp
  qed
  from pages_loop_length [OF l] ps len show ?thesis by simp
qed


lemma take_one_update: "xs \<noteq> [] \<Longrightarrow> take (Suc 0) (xs[0 := a]) = [a]"
  by (cases xs) simp_all

lemma GetRecords_two_pages:
  "GetRecords (Suc (Suc fuel)) g twoPages ''zone1'' = Some ([exFtp], None)"
proof (cases "g 0 \<le> Suc 0")
  case True
  then show ?thesis
    by (simp add: GetRecords_def get_pages_def request_def unmarshal_slice_def go_append_def
          alloc_def set_elem_def elems_def cap_def emptyHeap_def nilSlice_def Let_def
          twoPages_def page_def max_def)
next
  case False
  then have r: "replicate (g 0) zeroRecord \<noteq> []" by auto
  from False show ?thesis
    by (simp add: GetRecords_def get_pages_def request_def unmarshal_slice_def go_append_def
          alloc_def set_elem_def elems_def cap_def emptyHeap_def nilSlice_def Let_def
          twoPages_def page_def max_def take_one_update [OF r])
qed

section \<open>TTL of a merged RRset\<close>

text \<open>
  Claim C2. When several records of the list share a key, the RRset the encoder holds
  for that key, which is in the output, has the minimum of their TTLs, and every
  reordering of the list gives the RRset of that key the same TTL. For two records of
  one label and type with TTLs 300 and 3600 the output is one RRset with TTL 300, in
  both orders.
\<close>

theorem recordsToNative_ttl_minimum:
  assumes "k \<in> Key ` set rcs" and "mset rcs' = mset rcs" and "map_iteration order"
  shows "\<exists>zr zr'.
           map_of (recordsToNative_loop combine origin rcs []) k = Some zr
         \<and> map_of (recordsToNative_loop combine origin rcs' []) k = Some zr'
         \<and> zr \<in> set (recordsToNative combine order rcs origin)
         \<and> RrsetTTL zr = ucast (Min (set (map rcTTL (filter (\<lambda>r. Key r = k) rcs))))
         \<and> RrsetTTL zr' = RrsetTTL zr"
proof -
  from assms(2) have s: "set rcs' = set rcs" by (rule mset_eq_setD)
  with assms(1) have k': "k \<in> Key ` set rcs'" by simp
  have "set (map rcTTL (filter (\<lambda>r. Key r = k) rcs'))
        = set (map rcTTL (filter (\<lambda>r. Key r = k) rcs))"
    using s by simp
  then have "RrsetTTL (groupRRset combine origin rcs' k) = RrsetTTL (groupRRset combine origin rcs k)"
    by (simp add: groupRRset_def Let_def)
  moreover have "RrsetTTL (groupRRset combine origin rcs k)
        = ucast (Min (set (map rcTTL (filter (\<lambda>r. Key r = k) rcs))))"
    by (simp add: groupRRset_def Let_def)
  ultimately show ?thesis
    using loop_group [OF assms(1)] loop_group [OF k'] group_in_output [OF assms(3) assms(1)]
    by blast
qed

theorem recordsToNative_ttl_minimum_witness:
  "(''www'', ''A'') \<in> Key ` set [exA300, exA3600]
   \<and> mset [exA3600, exA300] = mset [exA300, exA3600]
   \<and> map_iteration insertionOrder
   \<and> (\<exists>zr zr'.
         map_of (recordsToNative_loop rawEncoder ''example.com'' [exA300, exA3600] []) (''www'', ''A'') = Some zr
       \<and> map_of (recordsToNative_loop rawEncoder ''example.com'' [exA3600, exA300] []) (''www'', ''A'') = Some zr'
       \<and> zr \<in> set (recordsToNative rawEncoder insertionOrder [exA300, exA3600] ''example.com'')
       \<and> RrsetTTL zr = 300 \<and> RrsetTTL zr' = RrsetTTL zr)
   \<and> recordsToNative rawEncoder insertionOrder [exA300, exA3600] ''example.com'' =
       [\<lparr>RrsetType = ''A'', RrsetTTL = 300, RrsetName = ''www'',
         RrsetValues = [''1.2.3.4'', ''5.6.7.8'']\<rparr>]
   \<and> recordsToNative rawEncoder insertionOrder [exA3600, exA300] ''example.com'' =
       [\<lparr>RrsetType = ''A'', RrsetTTL = 300, RrsetName = ''www'',
         RrsetValues = [''5.6.7.8'', ''1.2.3.4'']\<rparr>]"
proof -
  have h1: "(''www'', ''A'') \<in> Key ` set [exA300, exA3600]"
    by (simp add: Key_def exA300_def)
  have h2: "mset [exA3600, exA300] = mset [exA300, exA3600]" by simp
  have h3: "map_iteration insertionOrder" by (rule map_iteration_insertionOrder)
  have m: "ucast (Min (set (map rcTTL (filter (\<lambda>r. Key r = (''www'', ''A'')) [exA300, exA3600]))))
           = (300 :: go_int)"
    by (simp add: Key_def exA300_def exA3600_def)
  have c: "\<exists>zr zr'.
         map_of (recordsToNative_loop rawEncoder ''example.com'' [exA300, exA3600] []) (''www'', ''A'') = Some zr
       \<and> map_of (recordsToNative_loop rawEncoder ''example.com'' [exA3600, exA300] []) (''www'', ''A'') = Some zr'
       \<and> zr \<in> set (recordsToNative rawEncoder insertionOrder [exA300, exA3600] ''example.com'')
       \<and> RrsetTTL zr = 300 \<and> RrsetTTL zr' = RrsetTTL zr"
    using recordsToNative_ttl_minimum [OF h1 h2 h3, of rawEncoder "''example.com''"]
    by (simp only: m)
  have e1: "recordsToNative rawEncoder insertionOrder [exA300, exA3600] ''example.com'' =
       [\<lparr>RrsetType = ''A'', RrsetTTL = 300, RrsetName = ''www'',
         RrsetValues = [''1.2.3.4'', ''5.6.7.8'']\<rparr>]"
    by (simp add: eval_encode exA300_def exA3600_def)
  have e2: "recordsToNative rawEncoder insertionOrder [exA3600, exA300] ''example.com'' =
       [\<lparr>RrsetType = ''A'', RrsetTTL = 300, RrsetName = ''www'',
         RrsetValues = [''5.6.7.8'', ''1.2.3.4'']\<rparr>]"
    by (simp add: eval_encode exA300_def exA3600_def)
  show ?thesis using h1 h2 h3 c e1 e2 by blast
qed

section \<open>One RRset per record key\<close>




section \<open>Order of the encoded output\<close>

text \<open>
  Claim C6, as amended. Whatever order the map iteration takes, the output holds the
  same RRsets, one for each record key of the list: two runs on the same input return
  the same RRsets up to their order. The values of each RRset are the encoded values
  of the records of its key in the order the records were supplied. The order of the
  RRsets is the order of the map iteration.
\<close>

theorem recordsToNative_same_rrsets_any_order:
  assumes "map_iteration order"
  shows "mset (recordsToNative combine order rcs origin)
           = mset (map (groupRRset combine origin rcs) (remdups (map Key rcs)))
       \<and> (\<forall>zr \<in> set (recordsToNative combine order rcs origin).
             \<exists>k \<in> Key ` set rcs.
               RrsetValues zr = map combine (filter (\<lambda>r. Key r = k) rcs))
       \<and> (\<forall>order'. map_iteration order' \<longrightarrow>
              mset (recordsToNative combine order' rcs origin)
              = mset (recordsToNative combine order rcs origin))"
proof (intro conjI ballI allI impI)
  let ?groups = "map (groupRRset combine origin rcs) (remdups (map Key rcs))"
  show m: "mset (recordsToNative combine order rcs origin) = mset ?groups"
    using assms by (rule output_mset)
  {
    fix zr assume "zr \<in> set (recordsToNative combine order rcs origin)"
    moreover have "set (recordsToNative combine order rcs origin) = set ?groups"
      using m by (rule mset_eq_setD)
    ultimately obtain k where "k \<in> Key ` set rcs" and "zr = groupRRset combine origin rcs k"
      by auto
    then show "\<exists>k \<in> Key ` set rcs.
                 RrsetValues zr = map combine (filter (\<lambda>r. Key r = k) rcs)"
      by (auto simp add: groupRRset_fields)
  }
  {
    fix order' :: map_order assume "map_iteration order'"
    then have "mset (recordsToNative combine order' rcs origin) = mset ?groups"
      by (rule output_mset)
    with m show "mset (recordsToNative combine order' rcs origin)
                 = mset (recordsToNative combine order rcs origin)"
      by simp
  }
qed

theorem recordsToNative_same_rrsets_any_order_witness:
  "map_iteration reverseOrder
   \<and> mset (recordsToNative rawEncoder reverseOrder [exA300, exMail, exA3600] ''example.com'')
     = mset (map (groupRRset rawEncoder ''example.com'' [exA300, exMail, exA3600])
               (remdups (map Key [exA300, exMail, exA3600])))
   \<and> recordsToNative rawEncoder reverseOrder [exA300, exMail, exA3600] ''example.com'' =
       [\<lparr>RrsetType = ''MX'', RrsetTTL = 300, RrsetName = ''example.com'',
         RrsetValues = [''10 mx.example.com.'']\<rparr>,
        \<lparr>RrsetType = ''A'', RrsetTTL = 300, RrsetName = ''www'',
         RrsetValues = [''1.2.3.4'', ''5.6.7.8'']\<rparr>]
   \<and> recordsToNative rawEncoder insertionOrder [exA300, exMail, exA3600] ''example.com'' =
       [\<lparr>RrsetType = ''A'', RrsetTTL = 300, RrsetName = ''www'',
         RrsetValues = [''1.2.3.4'', ''5.6.7.8'']\<rparr>,
        \<lparr>RrsetType = ''MX'', RrsetTTL = 300, RrsetName = ''example.com'',
         RrsetValues = [''10 mx.example.com.'']\<rparr>]"
proof -
  have h: "map_iteration reverseOrder" by (rule map_iteration_reverseOrder)
  have e1: "recordsToNative rawEncoder reverseOrder [exA300, exMail, exA3600] ''example.com'' =
       [\<lparr>RrsetType = ''MX'', RrsetTTL = 300, RrsetName = ''example.com'',
         RrsetValues = [''10 mx.example.com.'']\<rparr>,
        \<lparr>RrsetType = ''A'', RrsetTTL = 300, RrsetName = ''www'',
         RrsetValues = [''1.2.3.4'', ''5.6.7.8'']\<rparr>]"
    by (simp add: eval_encode exA300_def exA3600_def exMail_def)
  have e2: "recordsToNative rawEncoder insertionOrder [exA300, exMail, exA3600] ''example.com'' =
       [\<lparr>RrsetType = ''A'', RrsetTTL = 300, RrsetName = ''www'',
         RrsetValues = [''1.2.3.4'', ''5.6.7.8'']\<rparr>,
        \<lparr>RrsetType = ''MX'', RrsetTTL = 300, RrsetName = ''example.com'',
         RrsetValues = [''10 mx.example.com.'']\<rparr>]"
    by (simp add: eval_encode exA300_def exA3600_def exMail_def)
  from recordsToNative_same_rrsets_any_order [OF h, of rawEncoder "[exA300, exMail, exA3600]"
      "''example.com''"]
  have "mset (recordsToNative rawEncoder reverseOrder [exA300, exMail, exA3600] ''example.com'')
     = mset (map (groupRRset rawEncoder ''example.com'' [exA300, exMail, exA3600])
               (remdups (map Key [exA300, exMail, exA3600])))"
    by (rule conjunct1)
  with h e1 e2 show ?thesis by (intro conjI)
qed

text \<open>
  Claim C6 as stated fails: on one input, two orders of the map iteration give two
  different outputs, and the second is not in insertion order.
\<close>

theorem recordsToNative_order_counterexample:
  "map_iteration insertionOrder \<and> map_iteration reverseOrder
   \<and> recordsToNative rawEncoder insertionOrder [exA300, exMail] ''example.com'' =
       [\<lparr>RrsetType = ''A'', RrsetTTL = 300, RrsetName = ''www'',
         RrsetValues = [''1.2.3.4'']\<rparr>,
        \<lparr>RrsetType = ''MX'', RrsetTTL = 300, RrsetName = ''example.com'',
         RrsetValues = [''10 mx.example.com.'']\<rparr>]
   \<and> recordsToNative rawEncoder reverseOrder [exA300, exMail] ''example.com'' =
       [\<lparr>RrsetType = ''MX'', RrsetTTL = 300, RrsetName = ''example.com'',
         RrsetValues = [''10 mx.example.com.'']\<rparr>,
        \<lparr>RrsetType = ''A'', RrsetTTL = 300, RrsetName = ''www'',
         RrsetValues = [''1.2.3.4'']\<rparr>]"
  by (simp add: map_iteration_insertionOrder map_iteration_reverseOrder eval_encode
        exA300_def exMail_def)

section \<open>One canonical record per value\<close>

text \<open>
  Claim C5. When an RRset decodes without error, the decoder returns as many records
  as the RRset has values; the record at each position carries the value at that
  position (read by the value grammar, or raw for an ALIAS), and every record has the
  label of the RRset normalised against the origin, the type of the RRset and the TTL
  of the RRset converted to \<open>uint32\<close>.
\<close>

theorem nativeToRecords_one_record_per_value:
  assumes "nativeToRecords parse n origin = Inr rcs"
  shows "length rcs = length (RrsetValues n)
       \<and> (\<forall>i < length rcs.
             rcName (rcs ! i) = (if RrsetName n = ''@'' \<or> RrsetName n = origin then ''@'' else RrsetName n)
           \<and> rcType (rcs ! i) = RrsetType n
           \<and> rcTTL (rcs ! i) = ucast (RrsetTTL n)
           \<and> (if RrsetType n = ''ALIAS'' then rcTarget (rcs ! i) = RrsetValues n ! i
              else parse (RrsetType n) (RrsetValues n ! i) origin = Some (rcTarget (rcs ! i))))"
proof -
  from assms have a: "list_all2 (\<lambda>v rc. decodeValue parse n origin v = Inr rc) (RrsetValues n) rcs"
    by (rule nativeToRecords_Inr)
  then have len: "length rcs = length (RrsetValues n)" by (simp add: list_all2_lengthD)
  have nth: "decodeValue parse n origin (RrsetValues n ! i) = Inr (rcs ! i)"
    if "i < length rcs" for i
    using a len that by (auto dest: list_all2_nthD)
  have "rcName (rcs ! i) = (if RrsetName n = ''@'' \<or> RrsetName n = origin then ''@'' else RrsetName n)
           \<and> rcType (rcs ! i) = RrsetType n
           \<and> rcTTL (rcs ! i) = ucast (RrsetTTL n)
           \<and> (if RrsetType n = ''ALIAS'' then rcTarget (rcs ! i) = RrsetValues n ! i
              else parse (RrsetType n) (RrsetValues n ! i) origin = Some (rcTarget (rcs ! i)))"
    if "i < length rcs" for i
    using decodeValue_Inr [OF nth [OF that]] by (cases "RrsetType n = ''ALIAS''") simp_all
  with len show ?thesis by blast
qed

theorem nativeToRecords_one_record_per_value_witness:
  "nativeToRecords rawParser exRRset ''example.com'' =
     Inr [\<lparr>rcType = ''A'', rcName = ''www'', rcTTL = 300, rcTarget = ''1.2.3.4'',
            rcOriginal = GandiOriginal exRRset\<rparr>,
          \<lparr>rcType = ''A'', rcName = ''www'', rcTTL = 300, rcTarget = ''5.6.7.8'',
            rcOriginal = GandiOriginal exRRset\<rparr>]
   \<and> length [\<lparr>rcType = ''A'', rcName = ''www'', rcTTL = 300, rcTarget = ''1.2.3.4'',
            rcOriginal = GandiOriginal exRRset\<rparr>,
          \<lparr>rcType = ''A'', rcName = ''www'', rcTTL = 300, rcTarget = ''5.6.7.8'',
            rcOriginal = GandiOriginal exRRset\<rparr>] = length (RrsetValues exRRset)"
proof -
  have h: "nativeToRecords rawParser exRRset ''example.com'' =
     Inr [\<lparr>rcType = ''A'', rcName = ''www'', rcTTL = 300, rcTarget = ''1.2.3.4'',
            rcOriginal = GandiOriginal exRRset\<rparr>,
          \<lparr>rcType = ''A'', rcName = ''www'', rcTTL = 300, rcTarget = ''5.6.7.8'',
            rcOriginal = GandiOriginal exRRset\<rparr>]"
    by (simp add: eval_decode exRRset_def)
  from nativeToRecords_one_record_per_value [OF h] h show ?thesis by blast
qed

section \<open>Unparsable values\<close>

text \<open>
  Claim C8. When a value of an RRset cannot be parsed against the type of the RRset,
  the decoder returns an error and no records: the error of the first such value,
  whose message names the label, the type and the value behind the prefix that
  \<open>nativeToRecords\<close> puts before it.
\<close>

theorem nativeToRecords_unparsable:
  assumes "RrsetType n \<noteq> ''ALIAS''"
    and "v \<in> set (RrsetValues n)"
    and "parse (RrsetType n) v origin = None"
  shows "\<exists>v0 \<in> set (RrsetValues n). parse (RrsetType n) v0 origin = None
       \<and> nativeToRecords parse n origin =
           Inl (''unparsable record received from gandi: '' @ ''malformed record: label=''
                @ (if RrsetName n = ''@'' \<or> RrsetName n = origin then ''@'' else RrsetName n)
                @ '' type='' @ RrsetType n @ '' value='' @ v0)"
proof -
  from assms(2,3) have "\<exists>x \<in> set (RrsetValues n). parse (RrsetType n) x origin = None"
    by blast
  then obtain pre v0 suf where s: "RrsetValues n = pre @ v0 # suf"
    and v0: "parse (RrsetType n) v0 origin = None"
    and pre: "\<forall>u \<in> set pre. parse (RrsetType n) u origin \<noteq> None"
    by (auto simp add: split_list_first_prop_iff)
  have "nativeToRecords parse n origin =
           Inl (''unparsable record received from gandi: '' @ ''malformed record: label=''
                @ (if RrsetName n = ''@'' \<or> RrsetName n = origin then ''@'' else RrsetName n)
                @ '' type='' @ RrsetType n @ '' value='' @ v0)"
    unfolding nativeToRecords_def s
    by (rule nativeToRecords_loop_unparsable [where parse = parse and n = n and v = v0 and origin = origin, OF assms(1) pre v0])
  moreover have "v0 \<in> set (RrsetValues n)" by (simp add: s)
  ultimately show ?thesis using v0 by blast
qed

theorem nativeToRecords_unparsable_witness:
  "RrsetType exBadRRset \<noteq> ''ALIAS''
   \<and> ''bogus'' \<in> set (RrsetValues exBadRRset)
   \<and> strictParser (RrsetType exBadRRset) ''bogus'' ''example.com'' = None
   \<and> (\<exists>v0 \<in> set (RrsetValues exBadRRset).
         strictParser (RrsetType exBadRRset) v0 ''example.com'' = None
       \<and> nativeToRecords strictParser exBadRRset ''example.com'' =
           Inl (''unparsable record received from gandi: '' @ ''malformed record: label=''
                @ (if RrsetName exBadRRset = ''@'' \<or> RrsetName exBadRRset = ''example.com''
                   then ''@'' else RrsetName exBadRRset)
                @ '' type='' @ RrsetType exBadRRset @ '' value='' @ v0))
   \<and> nativeToRecords strictParser exBadRRset ''example.com'' =
       Inl ''unparsable record received from gandi: malformed record: label=www type=A value=bogus''"
proof -
  have h1: "RrsetType exBadRRset \<noteq> ''ALIAS''" by (simp add: exBadRRset_def)
  have h2: "''bogus'' \<in> set (RrsetValues exBadRRset)" by (simp add: exBadRRset_def)
  have h3: "strictParser (RrsetType exBadRRset) ''bogus'' ''example.com'' = None"
    by (simp add: strictParser_def)
  have e: "nativeToRecords strictParser exBadRRset ''example.com'' =
       Inl ''unparsable record received from gandi: malformed record: label=www type=A value=bogus''"
    by (simp add: eval_decode exBadRRset_def)
  from nativeToRecords_unparsable [where parse = strictParser and n = exBadRRset
      and v = "''bogus''" and origin = "''example.com''", OF h1 h2 h3] h1 h2 h3 e
  show ?thesis by blast
qed

section \<open>Decoding the encoded records\<close>

text \<open>
  Claim C1. For a list of canonical records with unique keys, decoding the output of
  the encoder, RRset by RRset with the same origin, gives no error and gives the
  canonical records of the list up to ordering. Each decoded record is the record it
  came from, with the apex marker as its label where the label was the apex marker or
  the literal origin string, and with the RRset it was decoded from as its native
  handle. The value parser is taken to read back what the encoder wrote for the
  records of the list.
\<close>

theorem decode_recordsToNative_roundtrip:
  assumes "map_iteration order"
    and "distinct (map Key R)"
    and "\<forall>r \<in> set R. lossless parse combine origin r"
  shows "\<exists>R'. decode parse (recordsToNative combine order R origin) origin = Inr R'
            \<and> mset (map (canonical origin) R') = mset (map (canonical origin) R)
            \<and> mset R' = mset (map (\<lambda>r. r\<lparr>rcName := (if rcName r = ''@'' \<or> rcName r = origin
                                                     then ''@'' else rcName r),
                                           rcOriginal := GandiOriginal
                                             (newZoneRecord combine origin r)\<rparr>) R)"
proof -
  let ?out = "recordsToNative combine order R origin"
  let ?enc = "newZoneRecord combine origin"
  let ?dec = "\<lambda>r. r\<lparr>rcName := (if rcName r = ''@'' \<or> rcName r = origin then ''@'' else rcName r),
                      rcOriginal := GandiOriginal (?enc r)\<rparr>"
  define d where "d z = (case nativeToRecords parse z origin of Inr (rc # _) \<Rightarrow> rc)" for z
  have m: "mset ?out = mset (map ?enc R)"
    using assms(1,2) by (rule output_unique_keys)
  have one: "nativeToRecords parse (?enc r) origin = Inr [?dec r]" if "r \<in> set R" for r
    using assms(3) that by (simp add: roundtrip_record)
  then have d: "d (?enc r) = ?dec r" if "r \<in> set R" for r
    using that by (simp add: d_def)
  have "set ?out = set (map ?enc R)" using m by (rule mset_eq_setD)
  then have "\<forall>z \<in> set ?out. nativeToRecords parse z origin = Inr [d z]"
    using one d by auto
  then have dec: "decode parse ?out origin = Inr (map d ?out)" by (rule decode_singletons)
  have "mset (map d ?out) = mset (map d (map ?enc R))"
    by (simp only: mset_map m)
  also have "map d (map ?enc R) = map ?dec R"
    using d by simp
  finally have res: "mset (map d ?out) = mset (map ?dec R)" .
  have "mset (map (canonical origin) (map d ?out)) = mset (map (canonical origin) (map ?dec R))"
    using arg_cong [OF res, of "image_mset (canonical origin)"] by (simp only: mset_map)
  also have "map (canonical origin) (map ?dec R) = map (canonical origin) R"
    by (simp add: canonical_decoded)
  finally have "mset (map (canonical origin) (map d ?out)) = mset (map (canonical origin) R)" .
  with dec res show ?thesis by blast
qed

theorem decode_recordsToNative_roundtrip_witness:
  "map_iteration reverseOrder
   \<and> distinct (map Key [exA300, exMail, exOriginLabel])
   \<and> lossless rawParser rawEncoder ''example.com'' exA300
   \<and> lossless rawParser rawEncoder ''example.com'' exMail
   \<and> lossless rawParser rawEncoder ''example.com'' exOriginLabel
   \<and> (\<exists>R'. decode rawParser
               (recordsToNative rawEncoder reverseOrder [exA300, exMail, exOriginLabel]
                  ''example.com'')
               ''example.com'' = Inr R'
          \<and> mset (map (canonical ''example.com'') R')
            = mset (map (canonical ''example.com'') [exA300, exMail, exOriginLabel]))
   \<and> decode rawParser
        (recordsToNative rawEncoder reverseOrder [exA300, exMail, exOriginLabel] ''example.com'')
        ''example.com'' =
       Inr [exOriginLabel\<lparr>rcName := ''@'', rcOriginal := GandiOriginal
              \<lparr>RrsetType = ''A'', RrsetTTL = 300, RrsetName = ''example.com'',
               RrsetValues = [''5.6.7.8'']\<rparr>\<rparr>,
            exMail\<lparr>rcOriginal := GandiOriginal
              \<lparr>RrsetType = ''MX'', RrsetTTL = 300, RrsetName = ''example.com'',
               RrsetValues = [''10 mx.example.com.'']\<rparr>\<rparr>,
            exA300\<lparr>rcOriginal := GandiOriginal
              \<lparr>RrsetType = ''A'', RrsetTTL = 300, RrsetName = ''www'',
               RrsetValues = [''1.2.3.4'']\<rparr>\<rparr>]"
proof -
  have h1: "map_iteration reverseOrder" by (rule map_iteration_reverseOrder)
  have h2: "distinct (map Key [exA300, exMail, exOriginLabel])"
    by (simp add: Key_def exA300_def exMail_def exOriginLabel_def)
  have h3: "lossless rawParser rawEncoder ''example.com'' exA300
     \<and> lossless rawParser rawEncoder ''example.com'' exMail
     \<and> lossless rawParser rawEncoder ''example.com'' exOriginLabel"
    by (simp add: lossless_def rawParser_def rawEncoder_def exA300_def exMail_def
          exOriginLabel_def)
  then have h3': "\<forall>r \<in> set [exA300, exMail, exOriginLabel].
      lossless rawParser rawEncoder ''example.com'' r"
    by simp
  have e: "decode rawParser
        (recordsToNative rawEncoder reverseOrder [exA300, exMail, exOriginLabel] ''example.com'')
        ''example.com'' =
       Inr [exOriginLabel\<lparr>rcName := ''@'', rcOriginal := GandiOriginal
              \<lparr>RrsetType = ''A'', RrsetTTL = 300, RrsetName = ''example.com'',
               RrsetValues = [''5.6.7.8'']\<rparr>\<rparr>,
            exMail\<lparr>rcOriginal := GandiOriginal
              \<lparr>RrsetType = ''MX'', RrsetTTL = 300, RrsetName = ''example.com'',
               RrsetValues = [''10 mx.example.com.'']\<rparr>\<rparr>,
            exA300\<lparr>rcOriginal := GandiOriginal
              \<lparr>RrsetType = ''A'', RrsetTTL = 300, RrsetName = ''www'',
               RrsetValues = [''1.2.3.4'']\<rparr>\<rparr>]"
    by (simp add: eval_encode eval_decode exA300_def exMail_def exOriginLabel_def)
  from decode_recordsToNative_roundtrip [where parse = rawParser and combine = rawEncoder,
      OF h1 h2 h3']
  have c: "\<exists>R'. decode rawParser
               (recordsToNative rawEncoder reverseOrder [exA300, exMail, exOriginLabel]
                  ''example.com'')
               ''example.com'' = Inr R'
          \<and> mset (map (canonical ''example.com'') R')
            = mset (map (canonical ''example.com'') [exA300, exMail, exOriginLabel])"
    by blast
  from h1 h2 h3 c e show ?thesis by (intro conjI) simp_all
qed

section \<open>Modifications\<close>

text \<open>
  Claim C9. When \<open>GetDomainCorrections\<close> returns corrections, they end with one
  correction for each entry of \<open>toModify\<close>, in order, and no other correction is an
  update: the correction of an entry calls \<open>UpdateRecord\<close> with the ID of the native
  record of the existing record and with the type, name, combined target and TTL of
  the desired record. For a desired record that differs from the existing one in its
  TTL only, the one correction updates the existing record's ID with the desired TTL.
\<close>

theorem GetDomainCorrections_modify:
  assumes "GetDomainCorrections e fuel dc = Some (Ok corrections)"
  shows "\<exists>dc' records unchanged toCreate toDelete toModify others updates.
           Punycode e dc = Inr dc'
         \<and> GetZoneRecords e fuel (dcName dc') = Some (Ok records)
         \<and> IncrementalDiff e dc' (PostProcessRecords e (pruneSOA records))
              = Inr (unchanged, toCreate, toDelete, toModify)
         \<and> corrections = others @ updates
         \<and> length others = length toDelete + length toCreate
         \<and> (\<forall>c \<in> set others. \<forall>r. F c \<noteq> UpdateRecord r)
         \<and> list_all2
              (\<lambda>modif c. \<exists>d x original.
                   Desired modif = Some d \<and> Existing modif = Some x
                 \<and> rcOriginal x = HetznerOriginal original
                 \<and> c = \<lparr>Msg = CorrelationString e modif,
                         F = UpdateRecord
                               \<lparr>recType = rcType d, recId = recId original,
                                recZoneId = dcName dc', recName = rcName d,
                                recValue = GetTargetCombined e d,
                                recTTL = ucast (rcTTL d)\<rparr>\<rparr>)
              toModify updates"
proof -
  from GetDomainCorrections_Ok [OF assms]
  obtain dc' records unchanged toCreate toDelete toModify where
    p: "Punycode e dc = Inr dc'"
    and z: "GetZoneRecords e fuel (dcName dc') = Some (Ok records)"
    and i: "IncrementalDiff e dc' (PostProcessRecords e (pruneSOA records))
              = Inr (unchanged, toCreate, toDelete, toModify)"
    and c: "planCorrections e dc' toCreate toDelete toModify = Ok corrections"
    by blast
  from planCorrections_Ok [OF c] obtain deletes creates updates where
    s: "corrections = deletes @ creates @ updates"
    and dl: "list_all2 (\<lambda>c correction. planDelete e c = Ok correction) toDelete deletes"
    and cl: "list_all2 (\<lambda>c correction. planCreate e dc' c = Ok correction) toCreate creates"
    and ul: "list_all2 (\<lambda>c correction. planModify e dc' c = Ok correction) toModify updates"
    by blast
  have len: "length (deletes @ creates) = length toDelete + length toCreate"
    using dl cl by (simp add: list_all2_lengthD)
  have "\<forall>r. F c \<noteq> UpdateRecord r" if "c \<in> set deletes" for c
  proof -
    from that dl obtain del where "planDelete e del = Ok c"
      by (auto simp add: in_set_conv_nth list_all2_conv_all_nth)
    from planDelete_Ok [OF this] show ?thesis by auto
  qed
  moreover have "\<forall>r. F c \<noteq> UpdateRecord r" if "c \<in> set creates" for c
  proof -
    from that cl obtain cre where "planCreate e dc' cre = Ok c"
      by (auto simp add: in_set_conv_nth list_all2_conv_all_nth)
    from planCreate_Ok [OF this] show ?thesis by auto
  qed
  ultimately have no: "\<forall>c \<in> set (deletes @ creates). \<forall>r. F c \<noteq> UpdateRecord r" by auto
  have ul': "list_all2
              (\<lambda>modif c. \<exists>d x original.
                   Desired modif = Some d \<and> Existing modif = Some x
                 \<and> rcOriginal x = HetznerOriginal original
                 \<and> c = \<lparr>Msg = CorrelationString e modif,
                         F = UpdateRecord
                               \<lparr>recType = rcType d, recId = recId original,
                                recZoneId = dcName dc', recName = rcName d,
                                recValue = GetTargetCombined e d,
                                recTTL = ucast (rcTTL d)\<rparr>\<rparr>)
              toModify updates"
    using ul by (rule list_all2_mono) (rule planModify_Ok)
  from s have "corrections = (deletes @ creates) @ updates" by simp
  with p z i len no ul' show ?thesis by blast
qed


theorem GetDomainCorrections_modify_witness:
  "GetDomainCorrections (exEnv oneZone onePage doubling) 1 exDesired =
     Some (Ok [\<lparr>Msg = ''MODIFY A www'',
                F = UpdateRecord
                      \<lparr>recType = ''A'', recId = ''id-www'', recZoneId = ''example.com'',
                       recName = ''www'', recValue = ''1.2.3.4'', recTTL = 300\<rparr>\<rparr>])
   \<and> (\<exists>dc' records unchanged toCreate toDelete toModify others updates.
           Punycode (exEnv oneZone onePage doubling) exDesired = Inr dc'
         \<and> GetZoneRecords (exEnv oneZone onePage doubling) 1 (dcName dc') = Some (Ok records)
         \<and> IncrementalDiff (exEnv oneZone onePage doubling) dc'
              (PostProcessRecords (exEnv oneZone onePage doubling) (pruneSOA records))
              = Inr (unchanged, toCreate, toDelete, toModify)
         \<and> [\<lparr>Msg = ''MODIFY A www'',
              F = UpdateRecord
                    \<lparr>recType = ''A'', recId = ''id-www'', recZoneId = ''example.com'',
                     recName = ''www'', recValue = ''1.2.3.4'', recTTL = 300\<rparr>\<rparr>]
             = others @ updates
         \<and> length others = length toDelete + length toCreate
         \<and> length updates = length toModify)"
proof -
  have h: "GetDomainCorrections (exEnv oneZone onePage doubling) 1 exDesired =
     Some (Ok [\<lparr>Msg = ''MODIFY A www'',
                F = UpdateRecord
                      \<lparr>recType = ''A'', recId = ''id-www'', recZoneId = ''example.com'',
                       recName = ''www'', recValue = ''1.2.3.4'', recTTL = 300\<rparr>\<rparr>])"
    by (simp add: eval_provider exDesired_def exA300_def exZone_def exSoa_def exWww_def)
  from GetDomainCorrections_modify [OF h] h show ?thesis
    by (metis (no_types, lifting) list_all2_lengthD)
qed


section \<open>The SOA record\<close>

text \<open>
  Claim C3. \<open>GetDomainCorrections\<close> hands the differ the records of the zone
  without those of type SOA, so the existing set of the diff holds no SOA record; and
  every correction that deletes or updates a record targets the native record of a
  record of the zone that is not of type SOA, whatever the desired records are. This
  rests on the differ reporting existing records out of the set it was given, and on
  the normalisation keeping types and native handles.
\<close>

theorem GetDomainCorrections_excludes_SOA:
  assumes "GetDomainCorrections e fuel dc = Some (Ok corrections)"
    and "differ_reports_given e"
    and "normalise_keeps_handles e"
  shows "\<exists>dc' records diffres.
           Punycode e dc = Inr dc'
         \<and> GetZoneRecords e fuel (dcName dc') = Some (Ok records)
         \<and> IncrementalDiff e dc' (PostProcessRecords e (pruneSOA records)) = Inr diffres
         \<and> (\<forall>r \<in> set (PostProcessRecords e (pruneSOA records)). rcType r \<noteq> ''SOA'')
         \<and> (\<forall>c \<in> set corrections. \<forall>record.
               F c = DeleteRecord record \<or> F c = UpdateRecord record \<longrightarrow>
               (\<exists>r \<in> set records. rcType r \<noteq> ''SOA''
                  \<and> (\<exists>original. rcOriginal r = HetznerOriginal original
                        \<and> recId original = recId record)))"
proof -
  from GetDomainCorrections_Ok [OF assms(1)]
  obtain dc' records unchanged toCreate toDelete toModify where
    p: "Punycode e dc = Inr dc'"
    and z: "GetZoneRecords e fuel (dcName dc') = Some (Ok records)"
    and i: "IncrementalDiff e dc' (PostProcessRecords e (pruneSOA records))
              = Inr (unchanged, toCreate, toDelete, toModify)"
    and c: "planCorrections e dc' toCreate toDelete toModify = Ok corrections"
    by blast
  let ?existing = "PostProcessRecords e (pruneSOA records)"
  have given: "\<exists>r \<in> set records. rcType r \<noteq> ''SOA'' \<and> rcType r = rcType x
                  \<and> rcOriginal r = rcOriginal x"
    if "x \<in> set ?existing" for x
    using normalise_member [OF assms(3) that] by (auto simp add: pruneSOA_def)
  then have noSOA: "\<forall>r \<in> set ?existing. rcType r \<noteq> ''SOA''" by metis
  have reported: "\<exists>x \<in> set ?existing. Existing m = Some x"
    if "m \<in> set toDelete \<union> set toModify" for m
    using assms(2) i that unfolding differ_reports_given_def by blast
  from planCorrections_Ok [OF c] obtain deletes creates updates where
    s: "corrections = deletes @ creates @ updates"
    and dl: "list_all2 (\<lambda>c correction. planDelete e c = Ok correction) toDelete deletes"
    and cl: "list_all2 (\<lambda>c correction. planCreate e dc' c = Ok correction) toCreate creates"
    and ul: "list_all2 (\<lambda>c correction. planModify e dc' c = Ok correction) toModify updates"
    by blast
  have target: "\<exists>r \<in> set records. rcType r \<noteq> ''SOA''
                  \<and> (\<exists>original. rcOriginal r = HetznerOriginal original
                        \<and> recId original = recId tgt)"
    if k: "k \<in> set corrections" and f: "F k = DeleteRecord tgt \<or> F k = UpdateRecord tgt"
    for k tgt
  proof -
    from k s consider "k \<in> set deletes" | "k \<in> set creates" | "k \<in> set updates" by auto
    then show ?thesis
    proof cases
      case 1
      from list_all2_right [OF dl 1] obtain del where del: "del \<in> set toDelete"
        and pd: "planDelete e del = Ok k" by blast
      from planDelete_Ok [OF pd] obtain x rec where x: "Existing del = Some x"
        and o: "rcOriginal x = HetznerOriginal rec" and fk: "F k = DeleteRecord rec" by auto
      from reported [of del] del x have "x \<in> set ?existing" by auto
      from given [OF this] o fk f show ?thesis by auto
    next
      case 2
      from list_all2_right [OF cl 2] obtain cre where "planCreate e dc' cre = Ok k" by blast
      from planCreate_Ok [OF this] f show ?thesis by auto
    next
      case 3
      from list_all2_right [OF ul 3] obtain modif where m: "modif \<in> set toModify"
        and pm: "planModify e dc' modif = Ok k" by blast
      from planModify_Ok [OF pm] obtain d x rec where x: "Existing modif = Some x"
        and o: "rcOriginal x = HetznerOriginal rec"
        and fk: "recId rec = recId tgt"
        using f by auto
      from reported [of modif] m x have "x \<in> set ?existing" by auto
      from given [OF this] o fk show ?thesis by auto
    qed
  qed
  from p z i noSOA target show ?thesis by blast
qed


theorem GetDomainCorrections_excludes_SOA_witness:
  "differ_reports_given (exEnv oneZone onePage doubling)
   \<and> normalise_keeps_handles (exEnv oneZone onePage doubling)
   \<and> GetZoneRecords (exEnv oneZone onePage doubling) 1 ''example.com'' =
       Some (Ok [\<lparr>rcType = ''SOA'', rcName = ''@'', rcTTL = 3600,
                  rcTarget = ''ns1.example.com. hostmaster.example.com. 1 2 3 4 5'',
                  rcOriginal = HetznerOriginal exSoa\<rparr>,
                 \<lparr>rcType = ''A'', rcName = ''www'', rcTTL = 600, rcTarget = ''1.2.3.4'',
                  rcOriginal = HetznerOriginal exWww\<rparr>])
   \<and> GetDomainCorrections (exEnv oneZone onePage doubling) 1 exNoRecords =
       Some (Ok [\<lparr>Msg = ''DELETE A www'', F = DeleteRecord exWww\<rparr>])
   \<and> (\<exists>dc' records diffres.
           Punycode (exEnv oneZone onePage doubling) exNoRecords = Inr dc'
         \<and> GetZoneRecords (exEnv oneZone onePage doubling) 1 (dcName dc') = Some (Ok records)
         \<and> IncrementalDiff (exEnv oneZone onePage doubling) dc'
              (PostProcessRecords (exEnv oneZone onePage doubling) (pruneSOA records))
              = Inr diffres
         \<and> (\<forall>r \<in> set (PostProcessRecords (exEnv oneZone onePage doubling) (pruneSOA records)).
               rcType r \<noteq> ''SOA'')
         \<and> (\<forall>c \<in> set [\<lparr>Msg = ''DELETE A www'', F = DeleteRecord exWww\<rparr>]. \<forall>record.
               F c = DeleteRecord record \<or> F c = UpdateRecord record \<longrightarrow>
               (\<exists>r \<in> set records. rcType r \<noteq> ''SOA''
                  \<and> (\<exists>original. rcOriginal r = HetznerOriginal original
                        \<and> recId original = recId record))))"
proof -
  have h1: "GetDomainCorrections (exEnv oneZone onePage doubling) 1 exNoRecords =
       Some (Ok [\<lparr>Msg = ''DELETE A www'', F = DeleteRecord exWww\<rparr>])"
    by (simp add: eval_provider exNoRecords_def exZone_def exSoa_def exWww_def)
  have h2: "differ_reports_given (exEnv oneZone onePage doubling)" by (rule exEnv_differ)
  have h3: "normalise_keeps_handles (exEnv oneZone onePage doubling)" by (rule exEnv_normalise)
  have z: "GetZoneRecords (exEnv oneZone onePage doubling) 1 ''example.com'' =
       Some (Ok [\<lparr>rcType = ''SOA'', rcName = ''@'', rcTTL = 3600,
                  rcTarget = ''ns1.example.com. hostmaster.example.com. 1 2 3 4 5'',
                  rcOriginal = HetznerOriginal exSoa\<rparr>,
                 \<lparr>rcType = ''A'', rcName = ''www'', rcTTL = 600, rcTarget = ''1.2.3.4'',
                  rcOriginal = HetznerOriginal exWww\<rparr>])"
    by (simp add: eval_provider exZone_def exSoa_def exWww_def)
  from GetDomainCorrections_excludes_SOA [OF h1 h2 h3] h1 h2 h3 z show ?thesis by blast
qed

section \<open>An empty list of zones\<close>

text \<open>
  Claim C10 does not hold of the code. When the listing of zones comes back empty and
  without error, \<open>GetNameservers\<close> and \<open>GetZoneRecords\<close> read \<open>zones[0]\<close> of the
  empty slice: both panic with an index out of range, and neither returns an error.
\<close>

theorem empty_zone_list_panics:
  assumes "GetZones fuel (grow e) (zonesAPI e) domain = Some ([], None)"
  shows "GetNameservers e fuel domain = Some (Panic IndexOutOfRange)
       \<and> GetZoneRecords e fuel domain = Some (Panic IndexOutOfRange)"
  using assms by (simp add: GetNameservers_def GetZoneRecords_def)

theorem empty_zone_list_panics_witness:
  "GetZones 1 (grow (exEnv noZones onePage doubling)) (zonesAPI (exEnv noZones onePage doubling))
     ''example.com'' = Some ([], None)
   \<and> GetNameservers (exEnv noZones onePage doubling) 1 ''example.com''
       = Some (Panic IndexOutOfRange)
   \<and> GetZoneRecords (exEnv noZones onePage doubling) 1 ''example.com''
       = Some (Panic IndexOutOfRange)"
proof -
  have h: "GetZones 1 (grow (exEnv noZones onePage doubling))
             (zonesAPI (exEnv noZones onePage doubling)) ''example.com'' = Some ([], None)"
    by (simp add: eval_provider)
  from empty_zone_list_panics [OF h] h show ?thesis by simp
qed

section \<open>Zones of several pages\<close>

text \<open>
  Claim C7 does not hold of the code. \<open>GetRecords\<close> returns \<open>response.Records\<close>,
  which the loop never assigns: the pages after the first are decoded into
  \<open>extraResponse\<close> and appended to \<open>extraResponse\<close>. So whenever it returns without
  error, it returns as many records as the first page holds, whatever the growth of
  arrays. The pages after the first are decoded over the array of the first page: of
  a zone of two pages with one record each, the record of the second page is returned
  and the record of the first page is lost.
\<close>

theorem GetRecords_returns_first_page_length:
  assumes "GetRecords fuel g records zoneID = Some (rs, None)"
    and "records zoneID None = Success js meta"
  shows "length rs = length js"
  using assms unfolding GetRecords_def by (rule get_pages_length)


theorem GetRecords_returns_first_page_length_witness:
  "GetRecords 2 doubling twoPages ''zone1'' = Some ([exFtp], None)
   \<and> twoPages ''zone1'' None = Success [exWww] (page 1 2)
   \<and> twoPages ''zone1'' (Some 2) = Success [exFtp] (page 2 2)
   \<and> length [exFtp] = length [exWww]"
proof -
  have h1: "GetRecords 2 doubling twoPages ''zone1'' = Some ([exFtp], None)"
    using GetRecords_two_pages [of 0 doubling] by (simp add: numeral_2_eq_2)
  have h2: "twoPages ''zone1'' None = Success [exWww] (page 1 2)"
    by (simp add: twoPages_def)
  have h3: "twoPages ''zone1'' (Some 2) = Success [exFtp] (page 2 2)"
    by (simp add: twoPages_def)
  from GetRecords_returns_first_page_length [OF h1 h2] h1 h2 h3 show ?thesis by simp
qed

end
